theory Spec2Isabelle
  imports Main "HOL-Library.Char_ord" "HOL-Library.List_Lexorder"
begin

section \<open>Availability calendar synchronisation (script.py)\<close>

text \<open>
  The script talks to a calendar provider through three calls (list, delete, insert) and
  has no state of its own. The embedding below models
  \<^item> the JSON values the provider exchanges as the datatype \<open>json\<close>, a Python dict as an
    association list read with \<open>map_of\<close> (\<open>d.get(k, v)\<close> and \<open>d[k]\<close>, the latter raising
    KeyError when the key is absent);
  \<^item> the \<open>service\<close> object as a function from a call and a provider state to either a
    failure message or a response and the next provider state;
  \<^item> every Python function as a function on a world (provider state and the log of the
    calls issued so far) that returns an error or a value together with the world it
    leaves behind, so that a raised exception keeps what was committed before it;
  \<^item> each \<open>for\<close> loop as structural recursion over the fetched list.
\<close>

subsection \<open>Values, errors and provider calls\<close>

datatype json =
    JNull
  | JBool bool
  | JNum int
  | JStr string
  | JList "json list"
  | JDict "(string \<times> json) list"

type_synonym dict = "(string \<times> json) list"

datatype error =
    ProviderError string
  | KeyError string
  | AttributeError
  | TypeError

text \<open>
  The three provider operations the script uses, with the arguments it passes:
  \<open>events().list(calendarId, timeMin, timeMax, singleEvents, orderBy)\<close>,
  \<open>events().delete(calendarId, eventId)\<close> and \<open>events().insert(calendarId, body)\<close>.
\<close>

datatype call =
    EventsList string json json bool string
  | EventsDelete string json
  | EventsInsert string json

text \<open>
  A service answers a call in a provider state with a failure message (the provider's
  HTTP error) or with a response and the next state. The script reads only the response
  of a list call, and only its \<open>items\<close> entry: the response is that entry, \<open>None\<close> when the
  key is absent, a list of event dicts otherwise (the return type \<open>List[Dict]\<close> of
  \<open>get_all_events\<close>).
\<close>

type_synonym 's service = "call \<Rightarrow> 's \<Rightarrow> string + (dict list option \<times> 's)"

type_synonym 's world = "'s \<times> call list"

definition execute :: "'s service \<Rightarrow> call \<Rightarrow> 's world \<Rightarrow> (error + dict list option) \<times> 's world" where
  "execute service c w =
     (case service c (fst w) of
        Inl msg \<Rightarrow> (Inl (ProviderError msg), (fst w, snd w @ [c]))
      | Inr (r, s') \<Rightarrow> (Inr r, (s', snd w @ [c])))"

subsection \<open>The functions of script.py\<close>

definition get_all_events ::
  "'s service \<Rightarrow> string \<Rightarrow> json \<Rightarrow> json \<Rightarrow> 's world \<Rightarrow> (error + dict list) \<times> 's world" where
  "get_all_events service calendar_id time_min time_max w =
     (case execute service (EventsList calendar_id time_min time_max True ''startTime'') w of
        (Inl e, w') \<Rightarrow> (Inl e, w')
      | (Inr events_result, w') \<Rightarrow>
          (Inr (case events_result of None \<Rightarrow> [] | Some items \<Rightarrow> items), w'))"

text \<open>
  \<open>event[k].get("dateTime", event[k].get("date"))\<close>: KeyError when the event has no
  entry \<open>k\<close>, AttributeError when that entry is not a dict, \<open>None\<close> when the dict has neither
  field.
\<close>

definition event_time :: "dict \<Rightarrow> string \<Rightarrow> error + json" where
  "event_time event k =
     (case map_of event k of
        None \<Rightarrow> Inl (KeyError k)
      | Some (JDict d) \<Rightarrow>
          Inr (case map_of d ''dateTime'' of
                 Some v \<Rightarrow> v
               | None \<Rightarrow> (case map_of d ''date'' of Some v \<Rightarrow> v | None \<Rightarrow> JNull))
      | Some _ \<Rightarrow> Inl AttributeError)"

text \<open>
  \<open>x <= s\<close> and \<open>x >= s\<close> for a string \<open>s\<close>: Python orders two strings lexicographically
  by code point and raises TypeError when \<open>x\<close> is not a string.
\<close>

definition str_le :: "json \<Rightarrow> string \<Rightarrow> error + bool" where
  "str_le x s = (case x of JStr a \<Rightarrow> Inr (a \<le> s) | _ \<Rightarrow> Inl TypeError)"

definition str_ge :: "json \<Rightarrow> string \<Rightarrow> error + bool" where
  "str_ge x s = (case x of JStr a \<Rightarrow> Inr (s \<le> a) | _ \<Rightarrow> Inl TypeError)"

text \<open>\<open>event_start <= end and event_end >= start\<close>, the right operand evaluated only when
  the left one is true.\<close>

definition overlaps :: "json \<Rightarrow> json \<Rightarrow> string \<Rightarrow> string \<Rightarrow> error + bool" where
  "overlaps event_start event_end start end_t =
     (case str_le event_start end_t of
        Inl e \<Rightarrow> Inl e
      | Inr False \<Rightarrow> Inr False
      | Inr True \<Rightarrow> str_ge event_end start)"

fun overlapping_sweep ::
  "'s service \<Rightarrow> string \<Rightarrow> string \<Rightarrow> string \<Rightarrow> dict list \<Rightarrow> 's world \<Rightarrow> (error + json) \<times> 's world" where
  "overlapping_sweep service calendar_id start end_t [] w = (Inr JNull, w)"
| "overlapping_sweep service calendar_id start end_t (event # rest) w =
     (case event_time event ''start'' of
        Inl e \<Rightarrow> (Inl e, w)
      | Inr event_start \<Rightarrow>
     (case event_time event ''end'' of
        Inl e \<Rightarrow> (Inl e, w)
      | Inr event_end \<Rightarrow>
     (case overlaps event_start event_end start end_t of
        Inl e \<Rightarrow> (Inl e, w)
      | Inr False \<Rightarrow> overlapping_sweep service calendar_id start end_t rest w
      | Inr True \<Rightarrow>
     (case map_of event ''id'' of
        None \<Rightarrow> (Inl (KeyError ''id''), w)
      | Some event_id \<Rightarrow>
     (case execute service (EventsDelete calendar_id event_id) w of
        (Inl e, w') \<Rightarrow> (Inl e, w')
      | (Inr _, w') \<Rightarrow> overlapping_sweep service calendar_id start end_t rest w')))))"

definition delete_overlapping_events ::
  "'s service \<Rightarrow> string \<Rightarrow> string \<Rightarrow> string \<Rightarrow> 's world \<Rightarrow> (error + json) \<times> 's world" where
  "delete_overlapping_events service calendar_id start end_t w =
     (case get_all_events service calendar_id (JStr start) (JStr end_t) w of
        (Inl e, w') \<Rightarrow> (Inl e, w')
      | (Inr availability_events, w') \<Rightarrow>
          overlapping_sweep service calendar_id start end_t availability_events w')"

definition busy_body :: "json \<Rightarrow> json \<Rightarrow> json" where
  "busy_body start end_t =
     JDict [(''summary'', JStr ''Busy''),
            (''start'', JDict [(''dateTime'', start), (''timeZone'', JStr ''UTC'')]),
            (''end'', JDict [(''dateTime'', end_t), (''timeZone'', JStr ''UTC'')])]"

text \<open>
  \<open>AVAILABILITY_CALENDAR_ID\<close> is imported from a configuration module; it is the
  parameter \<open>avail\<close> of every function that reads it. A Python function that ends without
  a \<open>return\<close> statement returns \<open>None\<close>, here \<open>JNull\<close>.
\<close>

definition create_busy_event ::
  "'s service \<Rightarrow> string \<Rightarrow> json \<Rightarrow> json \<Rightarrow> 's world \<Rightarrow> (error + json) \<times> 's world" where
  "create_busy_event service avail start end_t w =
     (case execute service (EventsInsert avail (busy_body start end_t)) w of
        (Inl e, w') \<Rightarrow> (Inl e, w')
      | (Inr _, w') \<Rightarrow> (Inr JNull, w'))"

fun delete_sweep ::
  "'s service \<Rightarrow> string \<Rightarrow> dict list \<Rightarrow> 's world \<Rightarrow> (error + json) \<times> 's world" where
  "delete_sweep service avail [] w = (Inr JNull, w)"
| "delete_sweep service avail (event # rest) w =
     (case map_of event ''id'' of
        None \<Rightarrow> (Inl (KeyError ''id''), w)
      | Some event_id \<Rightarrow>
     (case execute service (EventsDelete avail event_id) w of
        (Inl e, w') \<Rightarrow> (Inl e, w')
      | (Inr _, w') \<Rightarrow> delete_sweep service avail rest w'))"

definition delete_all_availability_events ::
  "'s service \<Rightarrow> string \<Rightarrow> string \<Rightarrow> string \<Rightarrow> 's world \<Rightarrow> (error + json) \<times> 's world" where
  "delete_all_availability_events service avail time_min time_max w =
     (case get_all_events service avail (JStr time_min) (JStr time_max) w of
        (Inl e, w') \<Rightarrow> (Inl e, w')
      | (Inr availability_events, w') \<Rightarrow> delete_sweep service avail availability_events w')"

text \<open>\<open>event.get("transparency", "") != "transparent"\<close>\<close>

definition is_busy :: "dict \<Rightarrow> bool" where
  "is_busy event =
     ((case map_of event ''transparency'' of None \<Rightarrow> JStr '''' | Some v \<Rightarrow> v) \<noteq> JStr ''transparent'')"

fun sync_sweep ::
  "'s service \<Rightarrow> string \<Rightarrow> dict list \<Rightarrow> 's world \<Rightarrow> (error + json) \<times> 's world" where
  "sync_sweep service avail [] w = (Inr JNull, w)"
| "sync_sweep service avail (event # rest) w =
     (if is_busy event then
        (case event_time event ''start'' of
           Inl e \<Rightarrow> (Inl e, w)
         | Inr start \<Rightarrow>
        (case event_time event ''end'' of
           Inl e \<Rightarrow> (Inl e, w)
         | Inr end_t \<Rightarrow>
        (case create_busy_event service avail start end_t w of
           (Inl e, w') \<Rightarrow> (Inl e, w')
         | (Inr _, w') \<Rightarrow> sync_sweep service avail rest w')))
      else sync_sweep service avail rest w)"

definition sync_availability ::
  "'s service \<Rightarrow> string \<Rightarrow> string \<Rightarrow> string \<Rightarrow> 's world \<Rightarrow> (error + json) \<times> 's world" where
  "sync_availability service avail time_min time_max w =
     (case get_all_events service ''primary'' (JStr time_min) (JStr time_max) w of
        (Inl e, w') \<Rightarrow> (Inl e, w')
      | (Inr primary_events, w') \<Rightarrow> sync_sweep service avail primary_events w')"

text \<open>
  The entry point, after authentication: \<open>now\<close> and \<open>end_time\<close> are the two strings it
  computes from the clock.
\<close>

definition main :: "'s service \<Rightarrow> string \<Rightarrow> string \<Rightarrow> string \<Rightarrow> 's world \<Rightarrow> (error + json) \<times> 's world" where
  "main service avail now end_time w =
     (case delete_all_availability_events service avail now end_time w of
        (Inl e, w') \<Rightarrow> (Inl e, w')
      | (Inr _, w') \<Rightarrow> sync_availability service avail now end_time w')"

subsection \<open>Reading a run\<close>

text \<open>
  The effective start or end of an event as a total function: the value
  \<open>event_time\<close> returns, \<open>JNull\<close> where it raises.
\<close>

definition ev_bound :: "dict \<Rightarrow> string \<Rightarrow> json" where
  "ev_bound event k = (case event_time event k of Inl _ \<Rightarrow> JNull | Inr v \<Rightarrow> v)"

fun is_delete :: "call \<Rightarrow> bool" where
  "is_delete (EventsDelete c i) = True"
| "is_delete _ = False"

fun is_insert :: "call \<Rightarrow> bool" where
  "is_insert (EventsInsert c b) = True"
| "is_insert _ = False"

text \<open>The provider state after a sequence of calls that all succeed, \<open>None\<close> if one fails.\<close>

fun replay :: "'s service \<Rightarrow> call list \<Rightarrow> 's \<Rightarrow> 's option" where
  "replay service [] s = Some s"
| "replay service (c # cs) s =
     (case service c s of Inl _ \<Rightarrow> None | Inr (_, s') \<Rightarrow> replay service cs s')"

text \<open>
  A service for tests: every list call returns the given events, every other call
  succeeds, and the state counts the calls answered.
\<close>

fun stub_service :: "dict list \<Rightarrow> nat service" where
  "stub_service evs (EventsList c a b single order) n = Inr (Some evs, Suc n)"
| "stub_service evs (EventsDelete c i) n = Inr (None, Suc n)"
| "stub_service evs (EventsInsert c b) n = Inr (None, Suc n)"

text \<open>The same service, except that the call arriving after \<open>k\<close> answered calls fails.\<close>

definition flaky_service :: "dict list \<Rightarrow> nat \<Rightarrow> nat service" where
  "flaky_service evs k c n = (if n = k then Inl ''rateLimitExceeded'' else stub_service evs c n)"

subsection \<open>An in-memory calendar provider\<close>

text \<open>
  Modelled from the spec: the calendar provider is an external service, not part of the
  repository. This model follows sections 4.1 and 6 of the specification. A store maps a
  calendar identifier to the events it holds.
  \<^item> A list call is read-only and returns, in one response, all events of the calendar
    that lie in the window (recurring events are held as their instances). Whether an event lies in a window is decided by the parameter \<open>inw\<close> from the
    two bounds of the window and the effective start and end of the event (its
    \<open>dateTime\<close>, else its \<open>date\<close>); events are returned in the order the store holds them.
  \<^item> A delete call removes the events of the calendar that carry the identifier and
    fails when there is none.
  \<^item> An insert call appends the body as a new event under an identifier that no event
    of the calendar carries, and fails when the body is not an object.
\<close>

type_synonym store = "string \<Rightarrow> dict list"

fun longest :: "string list \<Rightarrow> nat" where
  "longest [] = 0"
| "longest (s # ss) = max (length s) (longest ss)"

definition id_strings :: "dict list \<Rightarrow> string list" where
  "id_strings evs =
     concat (map (\<lambda>ev. case map_of ev ''id'' of Some (JStr s) \<Rightarrow> [s] | _ \<Rightarrow> []) evs)"

definition fresh_id :: "dict list \<Rightarrow> string" where
  "fresh_id evs = replicate (Suc (longest (id_strings evs))) (CHR ''m'')"

definition window_events ::
  "(json \<Rightarrow> json \<Rightarrow> json \<Rightarrow> json \<Rightarrow> bool) \<Rightarrow> json \<Rightarrow> json \<Rightarrow> dict list \<Rightarrow> dict list" where
  "window_events inw time_min time_max evs =
     filter (\<lambda>ev. inw time_min time_max (ev_bound ev ''start'') (ev_bound ev ''end'')) evs"

fun mem_service :: "(json \<Rightarrow> json \<Rightarrow> json \<Rightarrow> json \<Rightarrow> bool) \<Rightarrow> store service" where
  "mem_service inw (EventsList c time_min time_max single order) st =
     Inr (Some (window_events inw time_min time_max (st c)), st)"
| "mem_service inw (EventsDelete c i) st =
     (if Some i \<in> set (map (\<lambda>ev. map_of ev ''id'') (st c))
      then Inr (None, st(c := filter (\<lambda>ev. map_of ev ''id'' \<noteq> Some i) (st c)))
      else Inl ''notFound'')"
| "mem_service inw (EventsInsert c body) st =
     (case body of
        JDict d \<Rightarrow> Inr (None, st(c := st c @ [(''id'', JStr (fresh_id (st c))) # d]))
      | _ \<Rightarrow> Inl ''badRequest'')"

text \<open>
  A window test for examples: Python's comparison of the timestamps as strings, an event
  lying in the window when it starts no later than the window ends and ends no earlier
  than the window starts.
\<close>

fun str_window :: "json \<Rightarrow> json \<Rightarrow> json \<Rightarrow> json \<Rightarrow> bool" where
  "str_window (JStr lo) (JStr hi) (JStr a) (JStr b) = (a \<le> hi \<and> lo \<le> b)"
| "str_window _ _ _ _ = False"

text \<open>
  What a sync sweep adds to a calendar holding \<open>cal\<close>: one placeholder for each busy
  event, each under the identifier the provider assigns at that moment.
\<close>

definition busy_fields :: "json \<Rightarrow> json \<Rightarrow> dict" where
  "busy_fields start end_t =
     [(''summary'', JStr ''Busy''),
      (''start'', JDict [(''dateTime'', start), (''timeZone'', JStr ''UTC'')]),
      (''end'', JDict [(''dateTime'', end_t), (''timeZone'', JStr ''UTC'')])]"

fun mirror_events :: "dict list \<Rightarrow> dict list \<Rightarrow> dict list" where
  "mirror_events cal [] = []"
| "mirror_events cal (ev # evs) =
     (if is_busy ev then
        (let m = (''id'', JStr (fresh_id cal)) # busy_fields (ev_bound ev ''start'') (ev_bound ev ''end'')
         in m # mirror_events (cal @ [m]) evs)
      else mirror_events cal evs)"

text \<open>An event without the identifier the provider gave it.\<close>

definition strip_id :: "dict \<Rightarrow> dict" where
  "strip_id ev = filter (\<lambda>kv. fst kv \<noteq> ''id'') ev"

subsection \<open>What a run leaves in the log\<close>

text \<open>
  A run from world \<open>w\<close> that ends in world \<open>w'\<close> with result \<open>r\<close> respects the log when the
  calls it added all succeeded in turn and led to the final provider state, except that a
  run ending in a provider error added one more call, the last one, which is the call
  that failed in that final state.
\<close>

definition trace_ok :: "'s service \<Rightarrow> 's world \<Rightarrow> (error + 'a) \<Rightarrow> 's world \<Rightarrow> bool" where
  "trace_ok service w r w' =
     (\<exists>cs. snd w' = snd w @ cs \<and>
        (case r of
           Inl (ProviderError m) \<Rightarrow>
             cs \<noteq> [] \<and> replay service (butlast cs) (fst w) = Some (fst w') \<and>
             service (last cs) (fst w') = Inl m
         | _ \<Rightarrow> replay service cs (fst w) = Some (fst w')))"

text \<open>The insert call that mirrors an event.\<close>

definition mirror_call :: "string \<Rightarrow> dict \<Rightarrow> call" where
  "mirror_call avail ev = EventsInsert avail (busy_body (ev_bound ev ''start'') (ev_bound ev ''end''))"

text \<open>The identifier entries of a list of events, and the events of a calendar that a
  clear sweep over a window leaves: those that share no identifier with an event the
  provider lists for the window.\<close>

definition ev_ids :: "dict list \<Rightarrow> json option list" where
  "ev_ids evs = map (\<lambda>ev. map_of ev ''id'') evs"

definition survivors ::
  "(json \<Rightarrow> json \<Rightarrow> json \<Rightarrow> json \<Rightarrow> bool) \<Rightarrow> json \<Rightarrow> json \<Rightarrow> dict list \<Rightarrow> dict list" where
  "survivors inw lo hi cal =
     filter (\<lambda>ev. map_of ev ''id'' \<notin> set (ev_ids (window_events inw lo hi cal))) cal"

subsection \<open>Example data\<close>

text \<open>
  A week-long window in the format the entry point builds
  (\<open>datetime.utcnow().isoformat() + "Z"\<close>), three source events (a meeting with no
  transparency entry, a transparent one, an all-day one), a second busy event at the same
  time as the meeting, a placeholder left by an earlier run, a placeholder whose timestamps carry another UTC offset and compare as later than
  the end of the window, and one that starts exactly when the window ends.
\<close>

definition demo_now :: string where "demo_now = ''2024-09-17T00:00:00.000000Z''"
definition demo_end :: string where "demo_end = ''2024-09-24T00:00:00.000000Z''"

definition meeting :: dict where
  "meeting = [(''id'', JStr ''e1''), (''summary'', JStr ''Research group meeting''),
     (''start'', JDict [(''dateTime'', JStr ''2024-09-17T16:00:00Z''), (''timeZone'', JStr ''America/Los_Angeles'')]),
     (''end'', JDict [(''dateTime'', JStr ''2024-09-17T17:00:00Z''), (''timeZone'', JStr ''America/Los_Angeles'')]),
     (''attendees'', JList [JDict [(''email'', JStr ''person@berkeley.edu'')]])]"

definition free_slot :: dict where
  "free_slot = [(''id'', JStr ''e2''), (''summary'', JStr ''Lunch''),
     (''start'', JDict [(''dateTime'', JStr ''2024-09-17T16:00:00Z'')]),
     (''end'', JDict [(''dateTime'', JStr ''2024-09-17T17:00:00Z'')]),
     (''transparency'', JStr ''transparent'')]"

definition all_day :: dict where
  "all_day = [(''id'', JStr ''e3''), (''summary'', JStr ''Conference''),
     (''start'', JDict [(''date'', JStr ''2024-09-18'')]),
     (''end'', JDict [(''date'', JStr ''2024-09-19'')]),
     (''transparency'', JStr ''opaque'')]"

definition stale :: dict where
  "stale = [(''id'', JStr ''m1''), (''summary'', JStr ''Busy''),
     (''start'', JDict [(''dateTime'', JStr ''2024-09-20T10:00:00Z''), (''timeZone'', JStr ''UTC'')]),
     (''end'', JDict [(''dateTime'', JStr ''2024-09-20T11:00:00Z''), (''timeZone'', JStr ''UTC'')])]"

definition demo_store :: store where
  "demo_store = (\<lambda>_. [])(''primary'' := [meeting, free_slot, all_day], ''mirror'' := [stale])"

definition meeting_twin :: dict where
  "meeting_twin = [(''id'', JStr ''e4''), (''summary'', JStr ''Office hours''),
     (''start'', JDict [(''dateTime'', JStr ''2024-09-17T16:00:00Z'')]),
     (''end'', JDict [(''dateTime'', JStr ''2024-09-17T17:00:00Z'')])]"

definition twin_store :: store where
  "twin_store = (\<lambda>_. [])(''primary'' := [meeting, meeting_twin], ''mirror'' := [stale])"

definition late_event :: dict where
  "late_event = [(''id'', JStr ''m2''), (''summary'', JStr ''Busy''),
     (''start'', JDict [(''dateTime'', JStr ''2024-09-24T08:00:00+09:00''), (''timeZone'', JStr ''UTC'')]),
     (''end'', JDict [(''dateTime'', JStr ''2024-09-24T09:00:00+09:00''), (''timeZone'', JStr ''UTC'')])]"

definition edge_event :: dict where
  "edge_event = [(''id'', JStr ''m3''), (''summary'', JStr ''Busy''),
     (''start'', JDict [(''dateTime'', JStr ''2024-09-24T00:00:00.000000Z''), (''timeZone'', JStr ''UTC'')]),
     (''end'', JDict [(''dateTime'', JStr ''2024-09-24T01:00:00.000000Z''), (''timeZone'', JStr ''UTC'')])]"

section \<open>Properties\<close>

subsection \<open>Failures end the run\<close>

lemma replay_append:
  "replay service (as @ bs) s =
     (case replay service as s of None \<Rightarrow> None | Some s1 \<Rightarrow> replay service bs s1)"
  by (induction as arbitrary: s) (auto split: sum.splits)

lemma trace_ok_pure:
  "(\<And>m. r \<noteq> Inl (ProviderError m)) \<Longrightarrow> trace_ok service w r w"
  unfolding trace_ok_def by (auto split: sum.splits error.splits)

lemma trace_ok_execute: "execute service c w = (r, w') \<Longrightarrow> trace_ok service w r w'"
  unfolding trace_ok_def execute_def
  by (cases "service c (fst w)") (auto split: sum.splits error.splits)

lemma trace_ok_bind:
  assumes "trace_ok service w (Inr x) w1" and "trace_ok service w1 r w2"
  shows "trace_ok service w r w2"
proof -
  from assms(1) obtain cs where cs: "snd w1 = snd w @ cs" "replay service cs (fst w) = Some (fst w1)"
    unfolding trace_ok_def by auto
  from assms(2) obtain ds where ds: "snd w2 = snd w1 @ ds"
    and c: "(case r of
           Inl (ProviderError m) \<Rightarrow>
             ds \<noteq> [] \<and> replay service (butlast ds) (fst w1) = Some (fst w2) \<and>
             service (last ds) (fst w2) = Inl m
         | _ \<Rightarrow> replay service ds (fst w1) = Some (fst w2))"
    unfolding trace_ok_def by auto
  show ?thesis
    unfolding trace_ok_def
    apply (rule exI[of _ "cs @ ds"])
    using cs ds c
    by (auto simp: replay_append butlast_append split: sum.splits error.splits)
qed

lemma trace_ok_retype:
  "trace_ok service w (Inl e :: error + 'a) w' \<Longrightarrow> trace_ok service w (Inl e :: error + 'b) w'"
  unfolding trace_ok_def by simp

lemma trace_ok_value:
  "trace_ok service w (Inr x :: error + 'a) w' \<Longrightarrow> trace_ok service w (Inr y :: error + 'b) w'"
  unfolding trace_ok_def by simp

lemma trace_ok_get_all_events:
  "get_all_events service c a b w = (r, w') \<Longrightarrow> trace_ok service w r w'"
  unfolding get_all_events_def
  by (auto split: prod.splits sum.splits dest!: trace_ok_execute intro: trace_ok_retype trace_ok_value)

lemma trace_ok_create_busy_event:
  "create_busy_event service avail a b w = (r, w') \<Longrightarrow> trace_ok service w r w'"
  unfolding create_busy_event_def
  by (auto split: prod.splits sum.splits dest!: trace_ok_execute intro: trace_ok_retype trace_ok_value)

lemma trace_ok_delete_sweep:
  "delete_sweep service avail evs w = (r, w') \<Longrightarrow> trace_ok service w r w'"
proof (induction evs arbitrary: w)
  case Nil
  then show ?case by (auto simp: trace_ok_pure)
next
  case (Cons ev evs)
  show ?case
  proof (cases "map_of ev ''id''")
    case None
    with Cons.prems show ?thesis by (auto simp: trace_ok_pure)
  next
    case (Some i)
    obtain r1 w1 where ex: "execute service (EventsDelete avail i) w = (r1, w1)"
      by (cases "execute service (EventsDelete avail i) w") auto
    have t: "trace_ok service w r1 w1" using trace_ok_execute[OF ex] .
    show ?thesis
    proof (cases r1)
      case (Inl e)
      with Some ex Cons.prems have "r = Inl e" "w' = w1" by auto
      with t Inl show ?thesis by (auto intro: trace_ok_retype)
    next
      case (Inr x)
      with Some ex Cons.prems have "delete_sweep service avail evs w1 = (r, w')" by simp
      from Cons.IH[OF this] t Inr show ?thesis by (auto intro: trace_ok_bind)
    qed
  qed
qed

lemma trace_ok_sync_sweep:
  "sync_sweep service avail evs w = (r, w') \<Longrightarrow> trace_ok service w r w'"
proof (induction evs arbitrary: w)
  case Nil
  then show ?case by (auto simp: trace_ok_pure)
next
  case (Cons ev evs)
  show ?case
  proof (cases "is_busy ev")
    case False
    with Cons show ?thesis by simp
  next
    case True
    show ?thesis
    proof (cases "event_time ev ''start''")
      case (Inl e)
      with True Cons.prems show ?thesis by (auto simp: trace_ok_pure event_time_def split: option.splits json.splits)
    next
      case s: (Inr a)
      show ?thesis
      proof (cases "event_time ev ''end''")
        case (Inl e)
        with True s Cons.prems show ?thesis by (auto simp: trace_ok_pure event_time_def split: option.splits json.splits)
      next
        case e: (Inr b)
        obtain r1 w1 where ex: "create_busy_event service avail a b w = (r1, w1)"
          by (cases "create_busy_event service avail a b w") auto
        have t: "trace_ok service w r1 w1" using trace_ok_create_busy_event[OF ex] .
        show ?thesis
        proof (cases r1)
          case (Inl err)
          with True s e ex Cons.prems have "r = Inl err" "w' = w1" by auto
          with t Inl show ?thesis by (auto intro: trace_ok_retype)
        next
          case (Inr x)
          with True s e ex Cons.prems have "sync_sweep service avail evs w1 = (r, w')" by simp
          from Cons.IH[OF this] t Inr show ?thesis by (auto intro: trace_ok_bind)
        qed
      qed
    qed
  qed
qed

lemma trace_ok_delete_all:
  "delete_all_availability_events service avail a b w = (r, w') \<Longrightarrow> trace_ok service w r w'"
  unfolding delete_all_availability_events_def
  by (auto split: prod.splits sum.splits
      dest!: trace_ok_get_all_events trace_ok_delete_sweep intro: trace_ok_retype trace_ok_bind)

lemma trace_ok_sync_availability:
  "sync_availability service avail a b w = (r, w') \<Longrightarrow> trace_ok service w r w'"
  unfolding sync_availability_def
  by (auto split: prod.splits sum.splits
      dest!: trace_ok_get_all_events trace_ok_sync_sweep intro: trace_ok_retype trace_ok_bind)

lemma trace_ok_main:
  "main service avail a b w = (r, w') \<Longrightarrow> trace_ok service w r w'"
  unfolding main_def
  by (auto split: prod.splits sum.splits
      dest!: trace_ok_delete_all trace_ok_sync_availability intro: trace_ok_retype trace_ok_bind)

subsection \<open>The calls of a sweep\<close>

lemma get_all_events_log:
  "get_all_events service c a b w = (Inr evs, w') \<Longrightarrow>
     snd w' = snd w @ [EventsList c a b True ''startTime'']"
  unfolding get_all_events_def execute_def
  by (auto split: prod.splits sum.splits)

lemma get_all_events_fail_log:
  "get_all_events service c a b w = (r, w') \<Longrightarrow>
     snd w' = snd w @ [EventsList c a b True ''startTime'']"
  unfolding get_all_events_def execute_def
  by (auto split: prod.splits sum.splits)

lemma delete_sweep_log:
  "delete_sweep service avail evs w = (Inr r, w') \<Longrightarrow>
     \<exists>ids. map (\<lambda>ev. map_of ev ''id'') evs = map Some ids \<and>
           snd w' = snd w @ map (EventsDelete avail) ids"
proof (induction evs arbitrary: w)
  case Nil
  then show ?case by simp
next
  case (Cons ev evs)
  from Cons.prems obtain i where i: "map_of ev ''id'' = Some i"
    by (cases "map_of ev ''id''") auto
  obtain r1 w1 where ex: "execute service (EventsDelete avail i) w = (r1, w1)"
    by (cases "execute service (EventsDelete avail i) w") auto
  with i Cons.prems obtain x where r1: "r1 = Inr x" by (cases r1) auto
  with i ex Cons.prems have rest: "delete_sweep service avail evs w1 = (Inr r, w')" by simp
  from ex have lg: "snd w1 = snd w @ [EventsDelete avail i]"
    unfolding execute_def by (auto split: sum.splits)
  from Cons.IH[OF rest] obtain ids where
    ids: "map (\<lambda>ev. map_of ev ''id'') evs = map Some ids" "snd w' = snd w1 @ map (EventsDelete avail) ids"
    by blast
  show ?case
    by (rule exI[of _ "i # ids"]) (simp add: i ids lg)
qed

lemma event_time_bound: "event_time ev k = Inr v \<Longrightarrow> ev_bound ev k = v"
  by (simp add: ev_bound_def)

lemma create_busy_event_log:
  "create_busy_event service avail a b w = (r, w') \<Longrightarrow>
     snd w' = snd w @ [EventsInsert avail (busy_body a b)]"
  unfolding create_busy_event_def execute_def
  by (auto split: prod.splits sum.splits)

lemma sync_sweep_log:
  "sync_sweep service avail evs w = (Inr r, w') \<Longrightarrow>
     snd w' = snd w @ map (mirror_call avail) (filter is_busy evs) \<and>
     (\<forall>ev\<in>set evs. is_busy ev \<longrightarrow>
        (\<exists>a b. event_time ev ''start'' = Inr a \<and> event_time ev ''end'' = Inr b))"
proof (induction evs arbitrary: w)
  case Nil
  then show ?case by simp
next
  case (Cons ev evs)
  show ?case
  proof (cases "is_busy ev")
    case False
    with Cons show ?thesis by simp
  next
    case True
    with Cons.prems obtain a where a: "event_time ev ''start'' = Inr a"
      by (cases "event_time ev ''start''") auto
    with True Cons.prems obtain b where b: "event_time ev ''end'' = Inr b"
      by (cases "event_time ev ''end''") auto
    obtain r1 w1 where ex: "create_busy_event service avail a b w = (r1, w1)"
      by (cases "create_busy_event service avail a b w") auto
    with True a b Cons.prems obtain x where r1: "r1 = Inr x" by (cases r1) auto
    with True a b ex Cons.prems have rest: "sync_sweep service avail evs w1 = (Inr r, w')" by simp
    from create_busy_event_log[OF ex] have lg: "snd w1 = snd w @ [mirror_call avail ev]"
      by (simp add: mirror_call_def event_time_bound[OF a] event_time_bound[OF b])
    from Cons.IH[OF rest] lg True a b show ?thesis by simp
  qed
qed

lemma sync_sweep_calls:
  "sync_sweep service avail evs w = (r, w') \<Longrightarrow>
     \<exists>done. snd w' = snd w @ map (mirror_call avail) done \<and> set done \<subseteq> set (filter is_busy evs) \<and>
       (\<forall>ev\<in>set done. \<exists>a b. event_time ev ''start'' = Inr a \<and> event_time ev ''end'' = Inr b)"
proof (induction evs arbitrary: w)
  case Nil
  then show ?case by simp
next
  case (Cons ev evs)
  show ?case
  proof (cases "is_busy ev")
    case False
    with Cons.prems have "sync_sweep service avail evs w = (r, w')" by simp
    from Cons.IH[OF this] False show ?thesis by auto
  next
    case True
    show ?thesis
    proof (cases "event_time ev ''start''")
      case (Inl e)
      with True Cons.prems have "w' = w" by simp
      then show ?thesis by (intro exI[of _ "[]"]) simp
    next
      case a: (Inr a)
      show ?thesis
      proof (cases "event_time ev ''end''")
        case (Inl e)
        with True a Cons.prems have "w' = w" by simp
        then show ?thesis by (intro exI[of _ "[]"]) simp
      next
        case b: (Inr b)
        obtain r1 w1 where ex: "create_busy_event service avail a b w = (r1, w1)"
          by (cases "create_busy_event service avail a b w") auto
        from create_busy_event_log[OF ex] have lg: "snd w1 = snd w @ [mirror_call avail ev]"
          by (simp add: mirror_call_def event_time_bound[OF a] event_time_bound[OF b])
        show ?thesis
        proof (cases r1)
          case (Inl err)
          with True a b ex Cons.prems have "w' = w1" by simp
          with lg True a b show ?thesis by (intro exI[of _ "[ev]"]) simp
        next
          case (Inr x)
          with True a b ex Cons.prems have "sync_sweep service avail evs w1 = (r, w')" by simp
          from Cons.IH[OF this] obtain dn where dn: "snd w' = snd w1 @ map (mirror_call avail) dn"
             "set dn \<subseteq> set (filter is_busy evs)"
             "\<forall>ev\<in>set dn. \<exists>a b. event_time ev ''start'' = Inr a \<and> event_time ev ''end'' = Inr b"
            by blast
          with lg True a b show ?thesis by (intro exI[of _ "ev # dn"]) auto
        qed
      qed
    qed
  qed
qed

lemma overlaps_True_iff:
  "overlaps x y start end_t = Inr True \<longleftrightarrow>
     (\<exists>a b. x = JStr a \<and> y = JStr b \<and> a \<le> end_t \<and> start \<le> b)"
  unfolding overlaps_def str_le_def str_ge_def
  by (cases x; cases y) (auto split: bool.splits)

lemma overlapping_sweep_log:
  "overlapping_sweep service cal start end_t evs w = (Inr r, w') \<Longrightarrow>
     \<exists>ids. map (\<lambda>ev. map_of ev ''id'')
             (filter (\<lambda>ev. overlaps (ev_bound ev ''start'') (ev_bound ev ''end'') start end_t = Inr True) evs)
           = map Some ids \<and>
           snd w' = snd w @ map (EventsDelete cal) ids"
proof (induction evs arbitrary: w)
  case Nil
  then show ?case by simp
next
  case (Cons ev evs)
  from Cons.prems obtain a where a: "event_time ev ''start'' = Inr a"
    by (cases "event_time ev ''start''") auto
  with Cons.prems obtain b where b: "event_time ev ''end'' = Inr b"
    by (cases "event_time ev ''end''") auto
  from a b Cons.prems obtain t where t: "overlaps a b start end_t = Inr t"
    by (cases "overlaps a b start end_t") auto
  note ab = event_time_bound[OF a] event_time_bound[OF b]
  show ?case
  proof (cases t)
    case False
    with a b t Cons.prems have "overlapping_sweep service cal start end_t evs w = (Inr r, w')" by simp
    from Cons.IH[OF this] False t ab show ?thesis by simp
  next
    case True
    with a b t Cons.prems obtain i where i: "map_of ev ''id'' = Some i"
      by (cases "map_of ev ''id''") auto
    obtain r1 w1 where ex: "execute service (EventsDelete cal i) w = (r1, w1)"
      by (cases "execute service (EventsDelete cal i) w") auto
    with True a b t i Cons.prems obtain x where r1: "r1 = Inr x" by (cases r1) auto
    with True a b t i ex Cons.prems
    have rest: "overlapping_sweep service cal start end_t evs w1 = (Inr r, w')" by simp
    from ex have lg: "snd w1 = snd w @ [EventsDelete cal i]"
      unfolding execute_def by (auto split: sum.splits)
    from Cons.IH[OF rest] obtain ids where
      ids: "map (\<lambda>ev. map_of ev ''id'')
             (filter (\<lambda>ev. overlaps (ev_bound ev ''start'') (ev_bound ev ''end'') start end_t = Inr True) evs)
           = map Some ids" "snd w' = snd w1 @ map (EventsDelete cal) ids"
      by blast
    show ?thesis
      by (rule exI[of _ "i # ids"]) (simp add: i ids lg ab t True)
  qed
qed

lemma delete_sweep_result: "delete_sweep service avail evs w = (Inr r, w') \<Longrightarrow> r = JNull"
  by (induction evs arbitrary: w) (auto split: option.splits prod.splits sum.splits)

lemma sync_sweep_result: "sync_sweep service avail evs w = (Inr r, w') \<Longrightarrow> r = JNull"
  by (induction evs arbitrary: w) (auto split: if_splits prod.splits sum.splits)

lemma overlapping_sweep_result:
  "overlapping_sweep service cal start end_t evs w = (Inr r, w') \<Longrightarrow> r = JNull"
  by (induction evs arbitrary: w) (auto split: option.splits prod.splits sum.splits bool.splits)

lemma overlaps_str_window:
  "overlaps x y start end_t = Inr True \<longleftrightarrow> str_window (JStr start) (JStr end_t) x y"
  unfolding overlaps_def str_le_def str_ge_def
  by (cases x; cases y) (auto split: bool.splits)

lemma is_busy_iff: "is_busy ev \<longleftrightarrow> map_of ev ''transparency'' \<noteq> Some (JStr ''transparent'')"
  by (auto simp: is_busy_def split: option.splits)

subsection \<open>The sweeps on the in-memory provider\<close>

lemma mem_get_all_events:
  "get_all_events (mem_service inw) c a b (st, lg) =
     (Inr (window_events inw a b (st c)), (st, lg @ [EventsList c a b True ''startTime'']))"
  by (simp add: get_all_events_def execute_def)

lemma mem_delete_sweep_store:
  "delete_sweep (mem_service inw) avail evs (st, lg) = (Inr r, (st', lg')) \<Longrightarrow>
     st' = st(avail := filter (\<lambda>ev. map_of ev ''id'' \<notin> set (ev_ids evs)) (st avail))"
proof (induction evs arbitrary: st lg)
  case Nil
  then show ?case by (simp add: ev_ids_def)
next
  case (Cons ev evs)
  from Cons.prems obtain i where i: "map_of ev ''id'' = Some i"
    by (cases "map_of ev ''id''") auto
  let ?st1 = "st(avail := filter (\<lambda>ev. map_of ev ''id'' \<noteq> Some i) (st avail))"
  from i Cons.prems have rest:
    "delete_sweep (mem_service inw) avail evs (?st1, lg @ [EventsDelete avail i]) = (Inr r, (st', lg'))"
    by (auto simp: execute_def split: if_splits)
  from Cons.IH[OF rest] show ?case
    by (auto simp: ev_ids_def i intro!: filter_cong)
qed

lemma mem_delete_sweep_succeeds:
  "distinct (ev_ids evs) \<Longrightarrow> None \<notin> set (ev_ids evs) \<Longrightarrow> set (ev_ids evs) \<subseteq> set (ev_ids (st avail)) \<Longrightarrow>
     \<exists>lg'. delete_sweep (mem_service inw) avail evs (st, lg) =
       (Inr JNull, (st(avail := filter (\<lambda>ev. map_of ev ''id'' \<notin> set (ev_ids evs)) (st avail)), lg'))"
proof (induction evs arbitrary: st lg)
  case Nil
  then show ?case by (simp add: ev_ids_def)
next
  case (Cons ev evs)
  from Cons.prems(2) obtain i where i: "map_of ev ''id'' = Some i"
    by (cases "map_of ev ''id''") (auto simp: ev_ids_def)
  let ?st1 = "st(avail := filter (\<lambda>ev. map_of ev ''id'' \<noteq> Some i) (st avail))"
  from Cons.prems(3) i have present: "Some i \<in> set (map (\<lambda>ev. map_of ev ''id'') (st avail))"
    by (auto simp: ev_ids_def)
  have step: "delete_sweep (mem_service inw) avail (ev # evs) (st, lg) =
      delete_sweep (mem_service inw) avail evs (?st1, lg @ [EventsDelete avail i])"
    using i present by (simp add: execute_def)
  have d: "distinct (ev_ids evs)" and n: "None \<notin> set (ev_ids evs)" and ni: "Some i \<notin> set (ev_ids evs)"
    using Cons.prems(1,2) i by (auto simp: ev_ids_def)
  have sub: "set (ev_ids evs) \<subseteq> set (ev_ids (?st1 avail))"
  proof
    fix x assume x: "x \<in> set (ev_ids evs)"
    with Cons.prems(3) obtain e where e: "e \<in> set (st avail)" "map_of e ''id'' = x"
      by (auto simp: ev_ids_def)
    from x ni have "x \<noteq> Some i" by auto
    with e show "x \<in> set (ev_ids (?st1 avail))" by (auto simp: ev_ids_def)
  qed
  from Cons.IH[of ?st1 "lg @ [EventsDelete avail i]", OF d n sub] obtain lg' where
    r: "delete_sweep (mem_service inw) avail evs (?st1, lg @ [EventsDelete avail i]) =
       (Inr JNull, (?st1(avail := filter (\<lambda>ev. map_of ev ''id'' \<notin> set (ev_ids evs)) (?st1 avail)), lg'))"
    by blast
  have e: "?st1(avail := filter (\<lambda>ev. map_of ev ''id'' \<notin> set (ev_ids evs)) (?st1 avail))
     = st(avail := filter (\<lambda>e. map_of e ''id'' \<notin> set (ev_ids (ev # evs))) (st avail))"
    by (auto simp: ev_ids_def i intro!: filter_cong)
  show ?case unfolding step r e by blast
qed

lemma busy_body_fields: "busy_body a b = JDict (busy_fields a b)"
  by (simp add: busy_body_def busy_fields_def)

lemma mem_sync_sweep:
  "(\<forall>ev\<in>set evs. is_busy ev \<longrightarrow>
        (\<exists>a b. event_time ev ''start'' = Inr a \<and> event_time ev ''end'' = Inr b)) \<Longrightarrow>
   sync_sweep (mem_service inw) avail evs (st, lg) =
     (Inr JNull, (st(avail := st avail @ mirror_events (st avail) evs),
                  lg @ map (mirror_call avail) (filter is_busy evs)))"
proof (induction evs arbitrary: st lg)
  case Nil
  then show ?case by simp
next
  case (Cons ev evs)
  show ?case
  proof (cases "is_busy ev")
    case False
    with Cons show ?thesis by simp
  next
    case True
    with Cons.prems obtain a b where
      a: "event_time ev ''start'' = Inr a" and b: "event_time ev ''end'' = Inr b" by auto
    note ab = event_time_bound[OF a] event_time_bound[OF b]
    let ?m = "(''id'', JStr (fresh_id (st avail))) # busy_fields a b"
    let ?st1 = "st(avail := st avail @ [?m])"
    have c: "create_busy_event (mem_service inw) avail a b (st, lg) =
        (Inr JNull, (?st1, lg @ [mirror_call avail ev]))"
      by (simp add: create_busy_event_def execute_def busy_body_fields mirror_call_def ab)
    from Cons.prems have "\<forall>ev\<in>set evs. is_busy ev \<longrightarrow>
        (\<exists>a b. event_time ev ''start'' = Inr a \<and> event_time ev ''end'' = Inr b)" by simp
    from Cons.IH[OF this, of ?st1 "lg @ [mirror_call avail ev]"]
    have rest: "sync_sweep (mem_service inw) avail evs (?st1, lg @ [mirror_call avail ev]) =
      (Inr JNull, (?st1(avail := ?st1 avail @ mirror_events (?st1 avail) evs),
                  (lg @ [mirror_call avail ev]) @ map (mirror_call avail) (filter is_busy evs)))" .
    have st: "?st1(avail := ?st1 avail @ mirror_events (?st1 avail) evs) =
       st(avail := st avail @ mirror_events (st avail) (ev # evs))"
      using True by (simp add: Let_def ab)
    have step: "sync_sweep (mem_service inw) avail (ev # evs) (st, lg) =
       sync_sweep (mem_service inw) avail evs (?st1, lg @ [mirror_call avail ev])"
      using True a b c by simp
    have lg: "(lg @ [mirror_call avail ev]) @ map (mirror_call avail) (filter is_busy evs) =
       lg @ map (mirror_call avail) (filter is_busy (ev # evs))"
      using True by simp
    show ?thesis unfolding step rest st lg ..
  qed
qed

lemma mem_sync_sweep_frame:
  "sync_sweep (mem_service inw) avail evs (st, lg) = (r, (st', lg')) \<Longrightarrow>
     \<exists>new. st' = st(avail := st avail @ new)"
proof (induction evs arbitrary: st lg)
  case Nil
  then show ?case by (intro exI[of _ "[]"]) simp
next
  case (Cons ev evs)
  show ?case
  proof (cases "is_busy ev")
    case False
    with Cons show ?thesis by simp
  next
    case True
    show ?thesis
    proof (cases "event_time ev ''start''")
      case (Inl e)
      with True Cons.prems show ?thesis by (intro exI[of _ "[]"]) simp
    next
      case a: (Inr a)
      show ?thesis
      proof (cases "event_time ev ''end''")
        case (Inl e)
        with True a Cons.prems show ?thesis by (intro exI[of _ "[]"]) simp
      next
        case b: (Inr b)
        let ?m = "(''id'', JStr (fresh_id (st avail))) # busy_fields a b"
        let ?st1 = "st(avail := st avail @ [?m])"
        have c: "create_busy_event (mem_service inw) avail a b (st, lg) =
              (Inr JNull, (?st1, lg @ [EventsInsert avail (busy_body a b)]))"
          by (simp add: create_busy_event_def execute_def busy_body_fields)
        with True a b Cons.prems
        have "sync_sweep (mem_service inw) avail evs (?st1, lg @ [EventsInsert avail (busy_body a b)]) = (r, (st', lg'))"
          by simp
        from Cons.IH[OF this] obtain new where "st' = ?st1(avail := ?st1 avail @ new)" by blast
        then show ?thesis by (intro exI[of _ "?m # new"]) simp
      qed
    qed
  qed
qed

lemma longest_bound: "s \<in> set ss \<Longrightarrow> length s \<le> longest ss"
  by (induction ss) auto

lemma fresh_id_fresh: "Some (JStr (fresh_id cal)) \<notin> set (ev_ids cal)"
proof
  assume "Some (JStr (fresh_id cal)) \<in> set (ev_ids cal)"
  then obtain ev where "ev \<in> set cal" "map_of ev ''id'' = Some (JStr (fresh_id cal))"
    by (auto simp: ev_ids_def)
  then have "fresh_id cal \<in> set (id_strings cal)"
    by (force simp: id_strings_def)
  from longest_bound[OF this] show False by (simp add: fresh_id_def)
qed

lemma ev_bound_mirror:
  "ev_bound ((''id'', i) # busy_fields a b) ''start'' = a"
  "ev_bound ((''id'', i) # busy_fields a b) ''end'' = b"
  by (simp_all add: ev_bound_def event_time_def busy_fields_def)

lemma strip_id_mirror: "strip_id ((''id'', i) # busy_fields a b) = busy_fields a b"
  by (simp add: strip_id_def busy_fields_def)

lemma mirror_events_strip:
  "map strip_id (mirror_events cal evs) =
     map (\<lambda>ev. busy_fields (ev_bound ev ''start'') (ev_bound ev ''end'')) (filter is_busy evs)"
  by (induction evs arbitrary: cal) (simp_all add: Let_def strip_id_mirror)

lemma mirror_events_window:
  "(\<forall>ev\<in>set evs. inw x y (ev_bound ev ''start'') (ev_bound ev ''end'')) \<Longrightarrow>
     window_events inw x y (mirror_events cal evs) = mirror_events cal evs"
  by (induction evs arbitrary: cal) (simp_all add: Let_def window_events_def ev_bound_mirror)

lemma mirror_events_ids:
  "distinct (ev_ids (mirror_events cal evs)) \<and> None \<notin> set (ev_ids (mirror_events cal evs)) \<and>
   set (ev_ids (mirror_events cal evs)) \<inter> set (ev_ids cal) = {}"
proof (induction evs arbitrary: cal)
  case Nil
  show ?case by (simp add: ev_ids_def)
next
  case (Cons ev evs)
  show ?case
  proof (cases "is_busy ev")
    case False
    with Cons show ?thesis by simp
  next
    case True
    let ?m = "(''id'', JStr (fresh_id cal)) # busy_fields (ev_bound ev ''start'') (ev_bound ev ''end'')"
    have m: "mirror_events cal (ev # evs) = ?m # mirror_events (cal @ [?m]) evs"
      using True by (simp add: Let_def)
    have idm: "map_of ?m ''id'' = Some (JStr (fresh_id cal))" by simp
    from Cons.IH[of "cal @ [?m]"] have
      d: "distinct (ev_ids (mirror_events (cal @ [?m]) evs))" and
      n: "None \<notin> set (ev_ids (mirror_events (cal @ [?m]) evs))" and
      i: "set (ev_ids (mirror_events (cal @ [?m]) evs)) \<inter> set (ev_ids (cal @ [?m])) = {}"
      by blast+
    from i have i1: "Some (JStr (fresh_id cal)) \<notin> set (ev_ids (mirror_events (cal @ [?m]) evs))"
      and i2: "set (ev_ids (mirror_events (cal @ [?m]) evs)) \<inter> set (ev_ids cal) = {}"
      by (auto simp: ev_ids_def)
    show ?thesis
      unfolding m using d n i1 i2 fresh_id_fresh[of cal]
      by (auto simp: ev_ids_def)
  qed
qed

lemma window_events_cleared:
  "window_events inw a b
     (filter (\<lambda>ev. map_of ev ''id'' \<notin> set (ev_ids (window_events inw a b cal))) cal) = []"
  by (auto simp: window_events_def ev_ids_def filter_empty_conv)

lemma mem_delete_all:
  assumes "delete_all_availability_events (mem_service inw) avail lo hi (st, lg) = (Inr r, (st', lg'))"
  shows "st' = st(avail := survivors inw (JStr lo) (JStr hi) (st avail))"
  using assms unfolding delete_all_availability_events_def survivors_def
  by (simp add: mem_get_all_events mem_delete_sweep_store)

lemma mem_sync_availability:
  assumes "sync_availability (mem_service inw) avail lo hi (st, lg) = (Inr r, (st', lg'))"
  shows "st' = st(avail := st avail @ mirror_events (st avail) (window_events inw (JStr lo) (JStr hi) (st ''primary'')))"
    and "\<forall>ev\<in>set (window_events inw (JStr lo) (JStr hi) (st ''primary'')). is_busy ev \<longrightarrow>
        (\<exists>a b. event_time ev ''start'' = Inr a \<and> event_time ev ''end'' = Inr b)"
proof -
  let ?evs = "window_events inw (JStr lo) (JStr hi) (st ''primary'')"
  let ?lg1 = "lg @ [EventsList ''primary'' (JStr lo) (JStr hi) True ''startTime'']"
  from assms have sw: "sync_sweep (mem_service inw) avail ?evs (st, ?lg1) = (Inr r, (st', lg'))"
    unfolding sync_availability_def by (simp add: mem_get_all_events)
  from sync_sweep_log[OF sw] show ok: "\<forall>ev\<in>set ?evs. is_busy ev \<longrightarrow>
        (\<exists>a b. event_time ev ''start'' = Inr a \<and> event_time ev ''end'' = Inr b)" by blast
  from mem_sync_sweep[OF ok, of inw avail st ?lg1] sw
  show "st' = st(avail := st avail @ mirror_events (st avail) ?evs)" by simp
qed

lemma mem_sync_availability_succeeds:
  assumes "\<forall>ev\<in>set (window_events inw (JStr lo) (JStr hi) (st ''primary'')). is_busy ev \<longrightarrow>
        (\<exists>a b. event_time ev ''start'' = Inr a \<and> event_time ev ''end'' = Inr b)"
  shows "\<exists>lg'. sync_availability (mem_service inw) avail lo hi (st, lg) =
     (Inr JNull, (st(avail := st avail @ mirror_events (st avail) (window_events inw (JStr lo) (JStr hi) (st ''primary''))), lg'))"
  unfolding sync_availability_def
  by (simp add: mem_get_all_events mem_sync_sweep[OF assms])

lemma mem_main:
  assumes ne: "avail \<noteq> ''primary''"
    and run: "main (mem_service inw) avail lo hi (st, lg) = (Inr r, (st', lg'))"
  shows "st' = st(avail := survivors inw (JStr lo) (JStr hi) (st avail) @
                  mirror_events (survivors inw (JStr lo) (JStr hi) (st avail))
                    (window_events inw (JStr lo) (JStr hi) (st ''primary'')))"
    and "\<forall>ev\<in>set (window_events inw (JStr lo) (JStr hi) (st ''primary'')). is_busy ev \<longrightarrow>
        (\<exists>a b. event_time ev ''start'' = Inr a \<and> event_time ev ''end'' = Inr b)"
proof -
  from run obtain x st1 lg1 where
    d: "delete_all_availability_events (mem_service inw) avail lo hi (st, lg) = (Inr x, (st1, lg1))" and
    s: "sync_availability (mem_service inw) avail lo hi (st1, lg1) = (Inr r, (st', lg'))"
    unfolding main_def by (auto split: prod.splits sum.splits)
  note st1 = mem_delete_all[OF d]
  from ne st1 have p: "st1 ''primary'' = st ''primary''" by simp
  from mem_sync_availability(1)[OF s] st1 p
  show "st' = st(avail := survivors inw (JStr lo) (JStr hi) (st avail) @
                  mirror_events (survivors inw (JStr lo) (JStr hi) (st avail))
                    (window_events inw (JStr lo) (JStr hi) (st ''primary'')))" by simp
  from mem_sync_availability(2)[OF s] p
  show "\<forall>ev\<in>set (window_events inw (JStr lo) (JStr hi) (st ''primary'')). is_busy ev \<longrightarrow>
        (\<exists>a b. event_time ev ''start'' = Inr a \<and> event_time ev ''end'' = Inr b)" by simp
qed

lemma window_events_append:
  "window_events inw a b (xs @ ys) = window_events inw a b xs @ window_events inw a b ys"
  by (simp add: window_events_def)

lemma window_events_idem:
  "\<forall>ev\<in>set (window_events inw a b xs). inw a b (ev_bound ev ''start'') (ev_bound ev ''end'')"
  by (simp add: window_events_def)

lemma window_survivors: "window_events inw a b (survivors inw a b cal) = []"
  unfolding survivors_def by (rule window_events_cleared)

lemma window_after_cycle:
  "window_events inw a b (survivors inw a b cal @ mirror_events (survivors inw a b cal) (window_events inw a b src))
     = mirror_events (survivors inw a b cal) (window_events inw a b src)"
  by (simp add: window_events_append window_survivors mirror_events_window[OF window_events_idem])

lemma survivors_after_cycle:
  "survivors inw a b (survivors inw a b cal @ mirror_events (survivors inw a b cal) (window_events inw a b src))
     = survivors inw a b cal"
proof -
  let ?rem = "survivors inw a b cal"
  let ?new = "mirror_events ?rem (window_events inw a b src)"
  from mirror_events_ids[of ?rem "window_events inw a b src"]
  have n: "None \<notin> set (ev_ids ?new)" and i: "set (ev_ids ?new) \<inter> set (ev_ids ?rem) = {}" by blast+
  have 1: "filter (\<lambda>ev. map_of ev ''id'' \<notin> set (ev_ids ?new)) ?rem = ?rem"
    using i by (auto simp: ev_ids_def filter_id_conv)
  have 2: "filter (\<lambda>ev. map_of ev ''id'' \<notin> set (ev_ids ?new)) ?new = []"
    by (auto simp: ev_ids_def filter_empty_conv)
  show ?thesis
    by (subst (1) survivors_def) (simp add: window_after_cycle 1 2)
qed

lemma mem_sync_availability_frame:
  "sync_availability (mem_service inw) avail lo hi (st, lg) = (r, (st', lg')) \<Longrightarrow>
     \<exists>new. st' = st(avail := st avail @ new)"
  unfolding sync_availability_def
  by (simp add: mem_get_all_events mem_sync_sweep_frame)

section \<open>The specification, sentence by sentence\<close>

text \<open>
  A source calendar with two busy events over the same interval: the cycle completes and
  leaves two placeholders with that interval in the mirror calendar, equal in everything
  but the identifier the provider gave them.
\<close>
theorem cycle_repeats_coinciding_intervals_counterexample:
  "fst (main (mem_service str_window) ''mirror'' demo_now demo_end (twin_store, [])) = Inr JNull \<and>
   map strip_id (window_events str_window (JStr demo_now) (JStr demo_end)
       (fst (snd (main (mem_service str_window) ''mirror'' demo_now demo_end (twin_store, []))) ''mirror'')) =
     [busy_fields (JStr ''2024-09-17T16:00:00Z'') (JStr ''2024-09-17T17:00:00Z''),
      busy_fields (JStr ''2024-09-17T16:00:00Z'') (JStr ''2024-09-17T17:00:00Z'')] \<and>
   \<not> distinct (map strip_id (window_events str_window (JStr demo_now) (JStr demo_end)
       (fst (snd (main (mem_service str_window) ''mirror'' demo_now demo_end (twin_store, []))) ''mirror'')))"
  by code_simp

text \<open>
  C1, amended. After one full cycle (clear, then sync) over a window that completes without
  an error, on the in-memory provider and with a mirror calendar other than the source: the
  events of the mirror calendar that lie in the window are, in order and up to the
  identifier the provider gave each, exactly one busy placeholder for each busy event of
  the source calendar in the window, carrying that event's start and end. Nothing that
  was in the window before the cycle is left and no busy event is mirrored twice; an
  interval occurs among the placeholders as often as among the busy source events. The
  source calendar is unchanged.
\<close>
theorem cycle_mirrors_busy_events:
  assumes "avail \<noteq> ''primary''"
    and "main (mem_service inw) avail now end_time (st, lg) = (Inr r, (st', lg'))"
  shows "map strip_id (window_events inw (JStr now) (JStr end_time) (st' avail)) =
           map (\<lambda>ev. busy_fields (ev_bound ev ''start'') (ev_bound ev ''end''))
             (filter is_busy (window_events inw (JStr now) (JStr end_time) (st ''primary''))) \<and>
         st' ''primary'' = st ''primary''"
proof -
  note st' = mem_main(1)[OF assms]
  have w: "window_events inw (JStr now) (JStr end_time) (st' avail) =
      mirror_events (survivors inw (JStr now) (JStr end_time) (st avail))
         (window_events inw (JStr now) (JStr end_time) (st ''primary''))"
    by (subst st') (simp add: window_after_cycle)
  have p: "st' ''primary'' = st ''primary''"
    by (subst st') (simp add: assms(1)[symmetric])
  show ?thesis using p by (simp add: w mirror_events_strip)
qed

theorem cycle_mirrors_busy_events_witness:
  "''mirror'' \<noteq> ''primary'' \<and>
   fst (main (mem_service str_window) ''mirror'' demo_now demo_end (demo_store, [])) = Inr JNull \<and>
   map strip_id (window_events str_window (JStr demo_now) (JStr demo_end)
       (fst (snd (main (mem_service str_window) ''mirror'' demo_now demo_end (demo_store, []))) ''mirror'')) =
     [busy_fields (JStr ''2024-09-17T16:00:00Z'') (JStr ''2024-09-17T17:00:00Z''),
      busy_fields (JStr ''2024-09-18'') (JStr ''2024-09-19'')]"
proof -
  let ?out = "main (mem_service str_window) ''mirror'' demo_now demo_end (demo_store, [])"
  have ne: "''mirror'' \<noteq> ''primary''" by simp
  have ok: "fst ?out = Inr JNull" by code_simp
  then have run: "?out = (Inr JNull, (fst (snd ?out), snd (snd ?out)))"
    by (simp add: prod_eq_iff)
  have src: "map (\<lambda>ev. busy_fields (ev_bound ev ''start'') (ev_bound ev ''end''))
             (filter is_busy (window_events str_window (JStr demo_now) (JStr demo_end) (demo_store ''primary'')))
     = [busy_fields (JStr ''2024-09-17T16:00:00Z'') (JStr ''2024-09-17T17:00:00Z''),
      busy_fields (JStr ''2024-09-18'') (JStr ''2024-09-19'')]"
    by code_simp
  from cycle_mirrors_busy_events[OF ne run] ne ok src show ?thesis by simp
qed

text \<open>
  The clear operation the entry point runs applies no overlap test: it deletes a fetched
  event whose start compares as later than the end of the window.
\<close>
theorem clear_without_overlap_test_counterexample:
  "overlaps (ev_bound late_event ''start'') (ev_bound late_event ''end'') demo_now demo_end = Inr False \<and>
   snd (snd (delete_all_availability_events (stub_service [late_event]) ''mirror'' demo_now demo_end (0, []))) =
     [EventsList ''mirror'' (JStr demo_now) (JStr demo_end) True ''startTime'',
      EventsDelete ''mirror'' (JStr ''m2'')]"
  by code_simp

text \<open>
  C2, amended. The overlap-testing clear operation \<open>delete_overlapping_events\<close>, when it
  completes, issues after its list call exactly one delete call for each fetched event
  \<open>E\<close> with \<open>E.start <= T\<close> and \<open>E.end >= S\<close> under Python's comparison of the two strings
  (a closed interval: an event touching a bound is deleted), in the order fetched, and
  none for any other event.
\<close>
theorem overlap_sweep_deletes_overlapping:
  assumes "get_all_events service calendar_id (JStr start) (JStr end_t) w = (Inr evs, w1)"
    and "delete_overlapping_events service calendar_id start end_t w = (Inr r, w')"
  shows "\<exists>ids. map (\<lambda>ev. map_of ev ''id'') (window_events str_window (JStr start) (JStr end_t) evs) = map Some ids \<and>
           snd w' = snd w @ EventsList calendar_id (JStr start) (JStr end_t) True ''startTime'' #
                      map (EventsDelete calendar_id) ids"
proof -
  from assms have sw: "overlapping_sweep service calendar_id start end_t evs w1 = (Inr r, w')"
    unfolding delete_overlapping_events_def by simp
  from overlapping_sweep_log[OF sw] get_all_events_log[OF assms(1)]
  show ?thesis by (simp add: overlaps_str_window window_events_def)
qed

theorem overlap_sweep_deletes_overlapping_witness:
  "get_all_events (stub_service [stale, late_event, edge_event]) ''mirror'' (JStr demo_now) (JStr demo_end) (0, []) =
     (Inr [stale, late_event, edge_event], (1, [EventsList ''mirror'' (JStr demo_now) (JStr demo_end) True ''startTime''])) \<and>
   delete_overlapping_events (stub_service [stale, late_event, edge_event]) ''mirror'' demo_now demo_end (0, []) =
     (Inr JNull, (3, [EventsList ''mirror'' (JStr demo_now) (JStr demo_end) True ''startTime'',
                      EventsDelete ''mirror'' (JStr ''m1''), EventsDelete ''mirror'' (JStr ''m3'')])) \<and>
   (\<exists>ids. map (\<lambda>ev. map_of ev ''id'') [stale, edge_event] = map Some ids \<and>
      [EventsList ''mirror'' (JStr demo_now) (JStr demo_end) True ''startTime'',
       EventsDelete ''mirror'' (JStr ''m1''), EventsDelete ''mirror'' (JStr ''m3'')] =
      EventsList ''mirror'' (JStr demo_now) (JStr demo_end) True ''startTime'' # map (EventsDelete ''mirror'') ids)"
proof -
  have g: "get_all_events (stub_service [stale, late_event, edge_event]) ''mirror'' (JStr demo_now) (JStr demo_end) (0, []) =
     (Inr [stale, late_event, edge_event], (1, [EventsList ''mirror'' (JStr demo_now) (JStr demo_end) True ''startTime'']))"
    by code_simp
  have d: "delete_overlapping_events (stub_service [stale, late_event, edge_event]) ''mirror'' demo_now demo_end (0, []) =
     (Inr JNull, (3, [EventsList ''mirror'' (JStr demo_now) (JStr demo_end) True ''startTime'',
                      EventsDelete ''mirror'' (JStr ''m1''), EventsDelete ''mirror'' (JStr ''m3'')]))"
    by code_simp
  have w: "window_events str_window (JStr demo_now) (JStr demo_end) [stale, late_event, edge_event] = [stale, edge_event]"
    by code_simp
  from overlap_sweep_deletes_overlapping[OF g d] have
    "\<exists>ids. map (\<lambda>ev. map_of ev ''id'') [stale, edge_event] = map Some ids \<and>
      [EventsList ''mirror'' (JStr demo_now) (JStr demo_end) True ''startTime'',
       EventsDelete ''mirror'' (JStr ''m1''), EventsDelete ''mirror'' (JStr ''m3'')] =
      EventsList ''mirror'' (JStr demo_now) (JStr demo_end) True ''startTime'' # map (EventsDelete ''mirror'') ids"
    unfolding w by simp
  with g d show ?thesis by (intro conjI)
qed

text \<open>
  C3. A sync that completes issues, after its list call on the source calendar, exactly
  one insert call for each fetched event whose transparency entry is not
  \<open>"transparent"\<close> (absent, \<open>"opaque"\<close> or anything else), in the order fetched, and none
  for an event whose transparency is \<open>"transparent"\<close>.
\<close>
theorem sync_mirrors_non_transparent:
  assumes "get_all_events service ''primary'' (JStr time_min) (JStr time_max) w = (Inr evs, w1)"
    and "sync_availability service avail time_min time_max w = (Inr r, w')"
  shows "snd w' = snd w @ EventsList ''primary'' (JStr time_min) (JStr time_max) True ''startTime'' #
           map (mirror_call avail)
             (filter (\<lambda>ev. map_of ev ''transparency'' \<noteq> Some (JStr ''transparent'')) evs)"
proof -
  from assms have sw: "sync_sweep service avail evs w1 = (Inr r, w')"
    unfolding sync_availability_def by simp
  have f: "filter (\<lambda>ev. map_of ev ''transparency'' \<noteq> Some (JStr ''transparent'')) evs = filter is_busy evs"
    by (rule filter_cong) (simp_all add: is_busy_iff)
  from sync_sweep_log[OF sw] get_all_events_log[OF assms(1)] show ?thesis
    unfolding f by simp
qed

theorem sync_mirrors_non_transparent_witness:
  "get_all_events (stub_service [meeting, free_slot, all_day]) ''primary'' (JStr demo_now) (JStr demo_end) (0, []) =
     (Inr [meeting, free_slot, all_day], (1, [EventsList ''primary'' (JStr demo_now) (JStr demo_end) True ''startTime''])) \<and>
   sync_availability (stub_service [meeting, free_slot, all_day]) ''mirror'' demo_now demo_end (0, []) =
     (Inr JNull, (3, [EventsList ''primary'' (JStr demo_now) (JStr demo_end) True ''startTime'',
                      mirror_call ''mirror'' meeting, mirror_call ''mirror'' all_day])) \<and>
   [EventsList ''primary'' (JStr demo_now) (JStr demo_end) True ''startTime'',
      mirror_call ''mirror'' meeting, mirror_call ''mirror'' all_day] =
     EventsList ''primary'' (JStr demo_now) (JStr demo_end) True ''startTime'' #
       map (mirror_call ''mirror'')
         (filter (\<lambda>ev. map_of ev ''transparency'' \<noteq> Some (JStr ''transparent'')) [meeting, free_slot, all_day])"
proof -
  have g: "get_all_events (stub_service [meeting, free_slot, all_day]) ''primary'' (JStr demo_now) (JStr demo_end) (0, []) =
     (Inr [meeting, free_slot, all_day], (1, [EventsList ''primary'' (JStr demo_now) (JStr demo_end) True ''startTime'']))"
    by code_simp
  have s: "sync_availability (stub_service [meeting, free_slot, all_day]) ''mirror'' demo_now demo_end (0, []) =
     (Inr JNull, (3, [EventsList ''primary'' (JStr demo_now) (JStr demo_end) True ''startTime'',
                      mirror_call ''mirror'' meeting, mirror_call ''mirror'' all_day]))"
    by code_simp
  from sync_mirrors_non_transparent[OF g s] g s show ?thesis by simp
qed

text \<open>
  Neither operation returns a count: a clear that deletes one event and a sync that
  creates one event both return \<open>None\<close>.
\<close>
theorem operations_return_counts_counterexample:
  "fst (delete_all_availability_events (stub_service [stale]) ''mirror'' demo_now demo_end (0, [])) = Inr JNull \<and>
   length (filter is_delete
     (snd (snd (delete_all_availability_events (stub_service [stale]) ''mirror'' demo_now demo_end (0, []))))) = 1 \<and>
   fst (sync_availability (stub_service [meeting]) ''mirror'' demo_now demo_end (0, [])) = Inr JNull \<and>
   length (filter is_insert
     (snd (snd (sync_availability (stub_service [meeting]) ''mirror'' demo_now demo_end (0, []))))) = 1"
  by code_simp

text \<open>
  C4, amended. The clear operation and the sync operation both return \<open>None\<close>. A clear
  that completes has issued as many delete calls as events were fetched; a sync that
  completes has issued as many insert calls as busy events were fetched.
\<close>
theorem operations_return_none:
  "(get_all_events service avail (JStr time_min) (JStr time_max) w = (Inr evs, w1) \<and>
    delete_all_availability_events service avail time_min time_max w = (Inr r, w') \<longrightarrow>
      r = JNull \<and> (\<exists>cs. snd w' = snd w @ cs \<and> length (filter is_delete cs) = length evs)) \<and>
   (get_all_events service2 ''primary'' (JStr lo) (JStr hi) v = (Inr evs2, v1) \<and>
    sync_availability service2 avail2 lo hi v = (Inr r2, v') \<longrightarrow>
      r2 = JNull \<and>
      (\<exists>cs. snd v' = snd v @ cs \<and> length (filter is_insert cs) = length (filter is_busy evs2)))"
proof (intro conjI impI)
  assume a: "get_all_events service avail (JStr time_min) (JStr time_max) w = (Inr evs, w1) \<and>
    delete_all_availability_events service avail time_min time_max w = (Inr r, w')"
  then have g: "get_all_events service avail (JStr time_min) (JStr time_max) w = (Inr evs, w1)"
    and d: "delete_all_availability_events service avail time_min time_max w = (Inr r, w')"
    by blast+
  from d have sw: "delete_sweep service avail evs w1 = (Inr r, w')"
    unfolding delete_all_availability_events_def g by simp
  from delete_sweep_result[OF sw] show "r = JNull" .
  from delete_sweep_log[OF sw] obtain ids where
    ids: "map (\<lambda>ev. map_of ev ''id'') evs = map Some ids" "snd w' = snd w1 @ map (EventsDelete avail) ids"
    by blast
  from ids(1) have len: "length ids = length evs" by (metis length_map)
  have all: "filter is_delete (map (EventsDelete avail) ids) = map (EventsDelete avail) ids"
    by (induction ids) simp_all
  from get_all_events_log[OF g] ids(2)
  have "snd w' = snd w @ (EventsList avail (JStr time_min) (JStr time_max) True ''startTime'' # map (EventsDelete avail) ids)"
    by simp
  moreover have "length (filter is_delete
      (EventsList avail (JStr time_min) (JStr time_max) True ''startTime'' # map (EventsDelete avail) ids)) = length evs"
    using all len by simp
  ultimately show "\<exists>cs. snd w' = snd w @ cs \<and> length (filter is_delete cs) = length evs" by blast
next
  assume a: "get_all_events service2 ''primary'' (JStr lo) (JStr hi) v = (Inr evs2, v1) \<and>
    sync_availability service2 avail2 lo hi v = (Inr r2, v')"
  then have g: "get_all_events service2 ''primary'' (JStr lo) (JStr hi) v = (Inr evs2, v1)"
    and d: "sync_availability service2 avail2 lo hi v = (Inr r2, v')"
    by blast+
  from d have sw: "sync_sweep service2 avail2 evs2 v1 = (Inr r2, v')"
    unfolding sync_availability_def g by simp
  from sync_sweep_result[OF sw] show "r2 = JNull" .
  have all: "filter is_insert (map (mirror_call avail2) xs) = map (mirror_call avail2) xs" for xs
    by (induction xs) (simp_all add: mirror_call_def)
  from get_all_events_log[OF g] sync_sweep_log[OF sw]
  have "snd v' = snd v @ (EventsList ''primary'' (JStr lo) (JStr hi) True ''startTime'' #
          map (mirror_call avail2) (filter is_busy evs2))"
    by simp
  moreover have "length (filter is_insert (EventsList ''primary'' (JStr lo) (JStr hi) True ''startTime'' #
          map (mirror_call avail2) (filter is_busy evs2))) = length (filter is_busy evs2)"
    using all by simp
  ultimately show "\<exists>cs. snd v' = snd v @ cs \<and> length (filter is_insert cs) = length (filter is_busy evs2)"
    by blast
qed

theorem operations_return_none_witness:
  "get_all_events (stub_service [stale, meeting, free_slot]) ''mirror'' (JStr demo_now) (JStr demo_end) (0, []) =
      (Inr [stale, meeting, free_slot], (1, [EventsList ''mirror'' (JStr demo_now) (JStr demo_end) True ''startTime''])) \<and>
   delete_all_availability_events (stub_service [stale, meeting, free_slot]) ''mirror'' demo_now demo_end (0, []) =
      (Inr JNull, (4, [EventsList ''mirror'' (JStr demo_now) (JStr demo_end) True ''startTime'',
         EventsDelete ''mirror'' (JStr ''m1''), EventsDelete ''mirror'' (JStr ''e1''),
         EventsDelete ''mirror'' (JStr ''e2'')])) \<and>
   (\<exists>cs. snd (4::nat, [EventsList ''mirror'' (JStr demo_now) (JStr demo_end) True ''startTime'',
         EventsDelete ''mirror'' (JStr ''m1''), EventsDelete ''mirror'' (JStr ''e1''),
         EventsDelete ''mirror'' (JStr ''e2'')]) = snd (0::nat, []) @ cs \<and>
       length (filter is_delete cs) = length [stale, meeting, free_slot]) \<and>
   get_all_events (stub_service [stale, meeting, free_slot]) ''primary'' (JStr demo_now) (JStr demo_end) (0, []) =
      (Inr [stale, meeting, free_slot], (1, [EventsList ''primary'' (JStr demo_now) (JStr demo_end) True ''startTime''])) \<and>
   sync_availability (stub_service [stale, meeting, free_slot]) ''mirror'' demo_now demo_end (0, []) =
      (Inr JNull, (3, [EventsList ''primary'' (JStr demo_now) (JStr demo_end) True ''startTime'',
         mirror_call ''mirror'' stale, mirror_call ''mirror'' meeting])) \<and>
   (\<exists>cs. snd (3::nat, [EventsList ''primary'' (JStr demo_now) (JStr demo_end) True ''startTime'',
         mirror_call ''mirror'' stale, mirror_call ''mirror'' meeting]) = snd (0::nat, []) @ cs \<and>
       length (filter is_insert cs) = length (filter is_busy [stale, meeting, free_slot]))"
proof -
  let ?svc = "stub_service [stale, meeting, free_slot]"
  have g1: "get_all_events ?svc ''mirror'' (JStr demo_now) (JStr demo_end) (0, []) =
      (Inr [stale, meeting, free_slot], (1, [EventsList ''mirror'' (JStr demo_now) (JStr demo_end) True ''startTime'']))"
    by code_simp
  have d: "delete_all_availability_events ?svc ''mirror'' demo_now demo_end (0, []) =
      (Inr JNull, (4, [EventsList ''mirror'' (JStr demo_now) (JStr demo_end) True ''startTime'',
         EventsDelete ''mirror'' (JStr ''m1''), EventsDelete ''mirror'' (JStr ''e1''),
         EventsDelete ''mirror'' (JStr ''e2'')]))"
    by code_simp
  have g2: "get_all_events ?svc ''primary'' (JStr demo_now) (JStr demo_end) (0, []) =
      (Inr [stale, meeting, free_slot], (1, [EventsList ''primary'' (JStr demo_now) (JStr demo_end) True ''startTime'']))"
    by code_simp
  have s: "sync_availability ?svc ''mirror'' demo_now demo_end (0, []) =
      (Inr JNull, (3, [EventsList ''primary'' (JStr demo_now) (JStr demo_end) True ''startTime'',
         mirror_call ''mirror'' stale, mirror_call ''mirror'' meeting]))"
    by code_simp
  note c1 = operations_return_none[THEN conjunct1, rule_format, OF conjI[OF g1 d], THEN conjunct2]
  note c2 = operations_return_none[THEN conjunct2, rule_format, OF conjI[OF g2 s], THEN conjunct2]
  from g1 d c1 g2 s c2 show ?thesis by (intro conjI)
qed

text \<open>
  C5. On the in-memory provider and with a mirror calendar other than the source: when a
  first cycle over a window completes, a second cycle over the same window from the state
  the first one left completes too, and leaves the mirror calendar with the same events up
  to the identifiers the provider assigns, and the source calendar as it was.
\<close>
theorem second_cycle_same_mirror:
  assumes "avail \<noteq> ''primary''"
    and "main (mem_service inw) avail now end_time (st, lg) = (Inr r, (st1, lg1))"
  shows "\<exists>r2 st2 lg2. main (mem_service inw) avail now end_time (st1, lg1) = (Inr r2, (st2, lg2)) \<and>
           map strip_id (st2 avail) = map strip_id (st1 avail) \<and>
           st2 ''primary'' = st1 ''primary''"
proof -
  let ?lo = "JStr now" and ?hi = "JStr end_time"
  let ?rem = "survivors inw ?lo ?hi (st avail)"
  let ?evs = "window_events inw ?lo ?hi (st ''primary'')"
  let ?new = "mirror_events ?rem ?evs"
  note st1 = mem_main(1)[OF assms] and ok = mem_main(2)[OF assms]
  have a1: "st1 avail = ?rem @ ?new" by (subst st1) simp
  have p1: "st1 ''primary'' = st ''primary''" by (subst st1) (simp add: assms(1)[symmetric])
  have w1: "window_events inw ?lo ?hi (st1 avail) = ?new"
    unfolding a1 by (rule window_after_cycle)
  from mirror_events_ids[of ?rem ?evs]
  have d: "distinct (ev_ids ?new)" and n: "None \<notin> set (ev_ids ?new)" by blast+
  have sub: "set (ev_ids ?new) \<subseteq> set (ev_ids (st1 avail))"
    unfolding a1 by (auto simp: ev_ids_def)
  let ?lgA = "lg1 @ [EventsList avail ?lo ?hi True ''startTime'']"
  from mem_delete_sweep_succeeds[of ?new st1 avail inw ?lgA, OF d n sub] obtain lgB where
    sweep: "delete_sweep (mem_service inw) avail ?new (st1, ?lgA) =
       (Inr JNull, (st1(avail := filter (\<lambda>ev. map_of ev ''id'' \<notin> set (ev_ids ?new)) (st1 avail)), lgB))"
    by blast
  have cleared: "st1(avail := filter (\<lambda>ev. map_of ev ''id'' \<notin> set (ev_ids ?new)) (st1 avail))
      = st1(avail := ?rem)"
  proof -
    have "filter (\<lambda>ev. map_of ev ''id'' \<notin> set (ev_ids ?new)) (st1 avail) = survivors inw ?lo ?hi (st1 avail)"
      unfolding survivors_def w1 ..
    also have "\<dots> = ?rem" unfolding a1 by (rule survivors_after_cycle)
    finally show ?thesis by simp
  qed
  have del: "delete_all_availability_events (mem_service inw) avail now end_time (st1, lg1) =
       (Inr JNull, (st1(avail := ?rem), lgB))"
    unfolding delete_all_availability_events_def
    by (simp add: mem_get_all_events w1 sweep cleared)
  let ?stc = "st1(avail := ?rem)"
  have pc: "?stc ''primary'' = st ''primary''" using p1 assms(1) by simp
  have okc: "\<forall>ev\<in>set (window_events inw ?lo ?hi (?stc ''primary'')). is_busy ev \<longrightarrow>
        (\<exists>a b. event_time ev ''start'' = Inr a \<and> event_time ev ''end'' = Inr b)"
    unfolding pc by (rule ok)
  from mem_sync_availability_succeeds[of inw now end_time ?stc avail lgB, OF okc] obtain lg2 where
    syn: "sync_availability (mem_service inw) avail now end_time (?stc, lgB) =
     (Inr JNull, (?stc(avail := ?stc avail @ mirror_events (?stc avail) (window_events inw ?lo ?hi (?stc ''primary''))), lg2))"
    by blast
  have fin: "?stc(avail := ?stc avail @ mirror_events (?stc avail) (window_events inw ?lo ?hi (?stc ''primary''))) = st1"
    unfolding pc by (rule ext) (simp add: a1)
  have "main (mem_service inw) avail now end_time (st1, lg1) = (Inr JNull, (st1, lg2))"
    unfolding main_def del using syn fin by simp
  then show ?thesis by simp
qed

theorem second_cycle_same_mirror_witness:
  "''mirror'' \<noteq> ''primary'' \<and>
   main (mem_service str_window) ''mirror'' demo_now demo_end (demo_store, []) =
     (Inr JNull, (fst (snd (main (mem_service str_window) ''mirror'' demo_now demo_end (demo_store, []))),
                  snd (snd (main (mem_service str_window) ''mirror'' demo_now demo_end (demo_store, []))))) \<and>
   (\<exists>r2 st2 lg2.
      main (mem_service str_window) ''mirror'' demo_now demo_end
        (fst (snd (main (mem_service str_window) ''mirror'' demo_now demo_end (demo_store, []))),
         snd (snd (main (mem_service str_window) ''mirror'' demo_now demo_end (demo_store, [])))) =
        (Inr r2, (st2, lg2)) \<and>
      map strip_id (st2 ''mirror'') =
        map strip_id (fst (snd (main (mem_service str_window) ''mirror'' demo_now demo_end (demo_store, []))) ''mirror'') \<and>
      st2 ''primary'' = fst (snd (main (mem_service str_window) ''mirror'' demo_now demo_end (demo_store, []))) ''primary'')"
proof -
  let ?out = "main (mem_service str_window) ''mirror'' demo_now demo_end (demo_store, [])"
  have ne: "''mirror'' \<noteq> ''primary''" by simp
  have ok: "fst ?out = Inr JNull" by code_simp
  then have run: "?out = (Inr JNull, (fst (snd ?out), snd (snd ?out)))"
    by (simp add: prod_eq_iff)
  from second_cycle_same_mirror[OF ne run] ne run show ?thesis by (intro conjI)
qed

text \<open>
  C6. Every insert call a sync issues goes to the availability calendar, and its body is
  the object with exactly the entries \<open>summary = "Busy"\<close>,
  \<open>start = {dateTime, timeZone = "UTC"}\<close> and \<open>end = {dateTime, timeZone = "UTC"}\<close>, the
  two \<open>dateTime\<close> values being the effective start and end of a fetched source event: no
  attendees, no description, no identifier of the source event.
\<close>
theorem mirror_event_shape:
  assumes "sync_availability service avail time_min time_max w = (r, w')"
    and "snd w' = snd w @ cs"
    and "EventsInsert c body \<in> set cs"
  shows "c = avail \<and>
         (\<exists>evs w1 ev a b.
            get_all_events service ''primary'' (JStr time_min) (JStr time_max) w = (Inr evs, w1) \<and>
            ev \<in> set evs \<and> event_time ev ''start'' = Inr a \<and> event_time ev ''end'' = Inr b \<and>
            body = JDict [(''summary'', JStr ''Busy''),
                          (''start'', JDict [(''dateTime'', a), (''timeZone'', JStr ''UTC'')]),
                          (''end'', JDict [(''dateTime'', b), (''timeZone'', JStr ''UTC'')])])"
proof -
  obtain g w1 where Pair: "get_all_events service ''primary'' (JStr time_min) (JStr time_max) w = (g, w1)"
    by (cases "get_all_events service ''primary'' (JStr time_min) (JStr time_max) w") auto
  note lg1 = get_all_events_fail_log[OF Pair]
  show ?thesis
  proof (cases g)
    case (Inl e)
    with Pair assms(1) have "w' = w1" by (simp add: sync_availability_def)
    with lg1 assms(2) have "cs = [EventsList ''primary'' (JStr time_min) (JStr time_max) True ''startTime'']"
      by simp
    with assms(3) show ?thesis by simp
  next
    case (Inr evs)
    with Pair assms(1) have sw: "sync_sweep service avail evs w1 = (r, w')"
      by (simp add: sync_availability_def)
    from sync_sweep_calls[OF sw] obtain dn where dn:
      "snd w' = snd w1 @ map (mirror_call avail) dn" "set dn \<subseteq> set (filter is_busy evs)"
      "\<forall>ev\<in>set dn. \<exists>a b. event_time ev ''start'' = Inr a \<and> event_time ev ''end'' = Inr b"
      by blast
    from dn(1) lg1 assms(2) have
      "cs = EventsList ''primary'' (JStr time_min) (JStr time_max) True ''startTime'' # map (mirror_call avail) dn"
      by simp
    with assms(3) obtain ev where ev: "ev \<in> set dn" "EventsInsert c body = mirror_call avail ev"
      by auto
    from dn(3) ev(1) obtain a b where ab: "event_time ev ''start'' = Inr a" "event_time ev ''end'' = Inr b"
      by blast
    from ev(2) have "c = avail" "body = busy_body a b"
      by (simp_all add: mirror_call_def event_time_bound[OF ab(1)] event_time_bound[OF ab(2)])
    with ev(1) dn(2) ab Pair Inr show ?thesis
      by (auto simp: busy_body_def)
  qed
qed

theorem mirror_event_shape_witness:
  "sync_availability (stub_service [meeting, free_slot, all_day]) ''mirror'' demo_now demo_end (0, []) =
     (Inr JNull, (3, [EventsList ''primary'' (JStr demo_now) (JStr demo_end) True ''startTime'',
        EventsInsert ''mirror'' (busy_body (JStr ''2024-09-17T16:00:00Z'') (JStr ''2024-09-17T17:00:00Z'')),
        EventsInsert ''mirror'' (busy_body (JStr ''2024-09-18'') (JStr ''2024-09-19''))])) \<and>
   (\<exists>evs w1 ev a b.
      get_all_events (stub_service [meeting, free_slot, all_day]) ''primary'' (JStr demo_now) (JStr demo_end) (0, [])
        = (Inr evs, w1) \<and>
      ev \<in> set evs \<and> event_time ev ''start'' = Inr a \<and> event_time ev ''end'' = Inr b \<and>
      busy_body (JStr ''2024-09-17T16:00:00Z'') (JStr ''2024-09-17T17:00:00Z'') =
         JDict [(''summary'', JStr ''Busy''),
                (''start'', JDict [(''dateTime'', a), (''timeZone'', JStr ''UTC'')]),
                (''end'', JDict [(''dateTime'', b), (''timeZone'', JStr ''UTC'')])])"
proof -
  let ?cs = "[EventsList ''primary'' (JStr demo_now) (JStr demo_end) True ''startTime'',
        EventsInsert ''mirror'' (busy_body (JStr ''2024-09-17T16:00:00Z'') (JStr ''2024-09-17T17:00:00Z'')),
        EventsInsert ''mirror'' (busy_body (JStr ''2024-09-18'') (JStr ''2024-09-19''))]"
  have s: "sync_availability (stub_service [meeting, free_slot, all_day]) ''mirror'' demo_now demo_end (0, []) =
     (Inr JNull, (3, ?cs))"
    by code_simp
  have l: "snd (3::nat, ?cs) = snd (0::nat, []) @ ?cs" by simp
  have m: "EventsInsert ''mirror'' (busy_body (JStr ''2024-09-17T16:00:00Z'') (JStr ''2024-09-17T17:00:00Z'')) \<in> set ?cs"
    by simp
  from mirror_event_shape[OF s l m] s show ?thesis by (intro conjI) blast+
qed

text \<open>
  C7. In a sync that completes, a fetched busy event whose start and end have no
  \<open>dateTime\<close> entry but a \<open>date\<close> entry gets its own insert call, at its place in the
  order fetched, with the two dates as start and end.
\<close>
theorem all_day_event_mirrored:
  assumes "get_all_events service ''primary'' (JStr time_min) (JStr time_max) w = (Inr (pre @ ev # post), w1)"
    and "sync_availability service avail time_min time_max w = (Inr r, w')"
    and "is_busy ev"
    and "map_of ev ''start'' = Some (JDict ds)" and "map_of ds ''dateTime'' = None" and "map_of ds ''date'' = Some d1"
    and "map_of ev ''end'' = Some (JDict de)" and "map_of de ''dateTime'' = None" and "map_of de ''date'' = Some d2"
  shows "snd w' = snd w @ EventsList ''primary'' (JStr time_min) (JStr time_max) True ''startTime'' #
           map (mirror_call avail) (filter is_busy pre) @
           EventsInsert avail (busy_body d1 d2) # map (mirror_call avail) (filter is_busy post)"
proof -
  from assms(1,2) have sw: "sync_sweep service avail (pre @ ev # post) w1 = (Inr r, w')"
    unfolding sync_availability_def by simp
  have "ev_bound ev ''start'' = d1" "ev_bound ev ''end'' = d2"
    using assms(4-9) by (simp_all add: ev_bound_def event_time_def)
  then have m: "mirror_call avail ev = EventsInsert avail (busy_body d1 d2)"
    by (simp add: mirror_call_def)
  from sync_sweep_log[OF sw] get_all_events_log[OF assms(1)] assms(3) m show ?thesis by simp
qed

theorem all_day_event_mirrored_witness:
  "get_all_events (stub_service [meeting, all_day, free_slot]) ''primary'' (JStr demo_now) (JStr demo_end) (0, []) =
     (Inr ([meeting] @ all_day # [free_slot]),
      (1, [EventsList ''primary'' (JStr demo_now) (JStr demo_end) True ''startTime''])) \<and>
   sync_availability (stub_service [meeting, all_day, free_slot]) ''mirror'' demo_now demo_end (0, []) =
     (Inr JNull, (3, [EventsList ''primary'' (JStr demo_now) (JStr demo_end) True ''startTime'',
        mirror_call ''mirror'' meeting,
        EventsInsert ''mirror'' (busy_body (JStr ''2024-09-18'') (JStr ''2024-09-19''))])) \<and>
   is_busy all_day \<and>
   map_of all_day ''start'' = Some (JDict [(''date'', JStr ''2024-09-18'')]) \<and>
   map_of all_day ''end'' = Some (JDict [(''date'', JStr ''2024-09-19'')]) \<and>
   snd (3::nat, [EventsList ''primary'' (JStr demo_now) (JStr demo_end) True ''startTime'',
        mirror_call ''mirror'' meeting,
        EventsInsert ''mirror'' (busy_body (JStr ''2024-09-18'') (JStr ''2024-09-19''))]) =
     snd (0::nat, []) @ EventsList ''primary'' (JStr demo_now) (JStr demo_end) True ''startTime'' #
           map (mirror_call ''mirror'') (filter is_busy [meeting]) @
           EventsInsert ''mirror'' (busy_body (JStr ''2024-09-18'') (JStr ''2024-09-19'')) #
           map (mirror_call ''mirror'') (filter is_busy [free_slot])"
proof -
  have g: "get_all_events (stub_service [meeting, all_day, free_slot]) ''primary'' (JStr demo_now) (JStr demo_end) (0, []) =
     (Inr ([meeting] @ all_day # [free_slot]),
      (1, [EventsList ''primary'' (JStr demo_now) (JStr demo_end) True ''startTime'']))"
    by code_simp
  have s: "sync_availability (stub_service [meeting, all_day, free_slot]) ''mirror'' demo_now demo_end (0, []) =
     (Inr JNull, (3, [EventsList ''primary'' (JStr demo_now) (JStr demo_end) True ''startTime'',
        mirror_call ''mirror'' meeting,
        EventsInsert ''mirror'' (busy_body (JStr ''2024-09-18'') (JStr ''2024-09-19''))]))"
    by code_simp
  have b: "is_busy all_day" by code_simp
  have s1: "map_of all_day ''start'' = Some (JDict [(''date'', JStr ''2024-09-18'')])" by code_simp
  have s2: "map_of [(''date'', JStr ''2024-09-18'')] ''dateTime'' = None" by simp
  have s3: "map_of [(''date'', JStr ''2024-09-18'')] ''date'' = Some (JStr ''2024-09-18'')" by simp
  have e1: "map_of all_day ''end'' = Some (JDict [(''date'', JStr ''2024-09-19'')])" by code_simp
  have e2: "map_of [(''date'', JStr ''2024-09-19'')] ''dateTime'' = None" by simp
  have e3: "map_of [(''date'', JStr ''2024-09-19'')] ''date'' = Some (JStr ''2024-09-19'')" by simp
  from all_day_event_mirrored[OF g s b s1 s2 s3 e1 e2 e3] g s b s1 e1 show ?thesis by (intro conjI)
qed

text \<open>
  C8. In every run of the entry point, all calls issued before the last one succeeded and
  the provider state at the end is the one they produced (nothing is rolled back). If the
  run ends with a provider error, the call that failed is the last call issued (no call
  follows it in either phase and it is not repeated) and its error is the result of the
  run; if the run ends otherwise, no call failed.
\<close>
theorem main_aborts_at_first_failure:
  assumes "main service avail now end_time w = (r, w')"
  shows "(\<forall>m. r = Inl (ProviderError m) \<longrightarrow>
            (\<exists>cs c. snd w' = snd w @ cs @ [c] \<and> replay service cs (fst w) = Some (fst w') \<and>
                    service c (fst w') = Inl m)) \<and>
         ((\<forall>m. r \<noteq> Inl (ProviderError m)) \<longrightarrow>
            (\<exists>cs. snd w' = snd w @ cs \<and> replay service cs (fst w) = Some (fst w')))"
proof -
  from trace_ok_main[OF assms] obtain cs where cs: "snd w' = snd w @ cs" and
    c: "case r of
           Inl (ProviderError m) \<Rightarrow>
             cs \<noteq> [] \<and> replay service (butlast cs) (fst w) = Some (fst w') \<and>
             service (last cs) (fst w') = Inl m
         | _ \<Rightarrow> replay service cs (fst w) = Some (fst w')"
    unfolding trace_ok_def by blast
  show ?thesis
  proof (intro conjI allI impI)
    fix m assume r: "r = Inl (ProviderError m)"
    with c have ne: "cs \<noteq> []" and rp: "replay service (butlast cs) (fst w) = Some (fst w')"
      and f: "service (last cs) (fst w') = Inl m" by simp_all
    from ne have "cs = butlast cs @ [last cs]" by simp
    with cs have "snd w' = snd w @ butlast cs @ [last cs]" by simp
    with rp f show "\<exists>cs c. snd w' = snd w @ cs @ [c] \<and> replay service cs (fst w) = Some (fst w') \<and>
                    service c (fst w') = Inl m" by blast
  next
    assume "\<forall>m. r \<noteq> Inl (ProviderError m)"
    with c have "replay service cs (fst w) = Some (fst w')"
      by (auto split: sum.splits error.splits)
    with cs show "\<exists>cs. snd w' = snd w @ cs \<and> replay service cs (fst w) = Some (fst w')" by blast
  qed
qed

theorem main_aborts_at_first_failure_witness:
  "main (flaky_service [stale, edge_event] 2) ''mirror'' demo_now demo_end (0, []) =
     (Inl (ProviderError ''rateLimitExceeded''),
      (2, [EventsList ''mirror'' (JStr demo_now) (JStr demo_end) True ''startTime'',
           EventsDelete ''mirror'' (JStr ''m1''), EventsDelete ''mirror'' (JStr ''m3'')])) \<and>
   (\<exists>cs c. [EventsList ''mirror'' (JStr demo_now) (JStr demo_end) True ''startTime'',
        EventsDelete ''mirror'' (JStr ''m1''), EventsDelete ''mirror'' (JStr ''m3'')] = cs @ [c] \<and>
      replay (flaky_service [stale, edge_event] 2) cs 0 = Some 2 \<and>
      flaky_service [stale, edge_event] 2 c 2 = Inl ''rateLimitExceeded'')"
proof -
  let ?log = "[EventsList ''mirror'' (JStr demo_now) (JStr demo_end) True ''startTime'',
        EventsDelete ''mirror'' (JStr ''m1''), EventsDelete ''mirror'' (JStr ''m3'')]"
  have run: "main (flaky_service [stale, edge_event] 2) ''mirror'' demo_now demo_end (0, []) =
     (Inl (ProviderError ''rateLimitExceeded''), (2, ?log))"
    by code_simp
  from main_aborts_at_first_failure[OF run] have
    "\<exists>cs c. ?log = cs @ [c] \<and> replay (flaky_service [stale, edge_event] 2) cs 0 = Some 2 \<and>
      flaky_service [stale, edge_event] 2 c 2 = Inl ''rateLimitExceeded''"
    by simp
  with run show ?thesis by (intro conjI)
qed

text \<open>
  C9. The clear operation of the entry point, when it completes, has issued after its list
  call one delete call for every fetched event, in the order fetched, whatever the
  event's start, end, transparency or other entries.
\<close>
theorem clear_deletes_every_fetched_event:
  assumes "get_all_events service avail (JStr time_min) (JStr time_max) w = (Inr evs, w1)"
    and "delete_all_availability_events service avail time_min time_max w = (Inr r, w')"
  shows "\<exists>ids. map (\<lambda>ev. map_of ev ''id'') evs = map Some ids \<and>
           snd w' = snd w @ EventsList avail (JStr time_min) (JStr time_max) True ''startTime'' #
                      map (EventsDelete avail) ids"
proof -
  from assms(2) have sw: "delete_sweep service avail evs w1 = (Inr r, w')"
    unfolding delete_all_availability_events_def assms(1) by simp
  from delete_sweep_log[OF sw] get_all_events_log[OF assms(1)] show ?thesis by simp
qed

theorem clear_deletes_every_fetched_event_witness:
  "get_all_events (stub_service [stale, free_slot, late_event]) ''mirror'' (JStr demo_now) (JStr demo_end) (0, []) =
     (Inr [stale, free_slot, late_event],
      (1, [EventsList ''mirror'' (JStr demo_now) (JStr demo_end) True ''startTime''])) \<and>
   delete_all_availability_events (stub_service [stale, free_slot, late_event]) ''mirror'' demo_now demo_end (0, []) =
     (Inr JNull, (4, [EventsList ''mirror'' (JStr demo_now) (JStr demo_end) True ''startTime'',
        EventsDelete ''mirror'' (JStr ''m1''), EventsDelete ''mirror'' (JStr ''e2''),
        EventsDelete ''mirror'' (JStr ''m2'')])) \<and>
   (\<exists>ids. map (\<lambda>ev. map_of ev ''id'') [stale, free_slot, late_event] = map Some ids \<and>
      [EventsList ''mirror'' (JStr demo_now) (JStr demo_end) True ''startTime'',
        EventsDelete ''mirror'' (JStr ''m1''), EventsDelete ''mirror'' (JStr ''e2''),
        EventsDelete ''mirror'' (JStr ''m2'')] =
      EventsList ''mirror'' (JStr demo_now) (JStr demo_end) True ''startTime'' # map (EventsDelete ''mirror'') ids)"
proof -
  have g: "get_all_events (stub_service [stale, free_slot, late_event]) ''mirror'' (JStr demo_now) (JStr demo_end) (0, []) =
     (Inr [stale, free_slot, late_event],
      (1, [EventsList ''mirror'' (JStr demo_now) (JStr demo_end) True ''startTime'']))"
    by code_simp
  have d: "delete_all_availability_events (stub_service [stale, free_slot, late_event]) ''mirror'' demo_now demo_end (0, []) =
     (Inr JNull, (4, [EventsList ''mirror'' (JStr demo_now) (JStr demo_end) True ''startTime'',
        EventsDelete ''mirror'' (JStr ''m1''), EventsDelete ''mirror'' (JStr ''e2''),
        EventsDelete ''mirror'' (JStr ''m2'')]))"
    by code_simp
  from clear_deletes_every_fetched_event[OF g d] have
    "\<exists>ids. map (\<lambda>ev. map_of ev ''id'') [stale, free_slot, late_event] = map Some ids \<and>
      [EventsList ''mirror'' (JStr demo_now) (JStr demo_end) True ''startTime'',
        EventsDelete ''mirror'' (JStr ''m1''), EventsDelete ''mirror'' (JStr ''e2''),
        EventsDelete ''mirror'' (JStr ''m2'')] =
      EventsList ''mirror'' (JStr demo_now) (JStr demo_end) True ''startTime'' # map (EventsDelete ''mirror'') ids"
    by simp
  with g d show ?thesis by (intro conjI)
qed

text \<open>
  C10. The calls a sync issues are one list call on \<open>"primary"\<close> and insert calls on the
  availability calendar, nothing else; on the in-memory provider, with an availability
  calendar other than \<open>"primary"\<close>, the events of \<open>"primary"\<close> after the sync are those
  before it.
\<close>
theorem sync_leaves_source_untouched:
  assumes "sync_availability service avail time_min time_max w = (r, w')"
    and "avail \<noteq> ''primary''"
    and "sync_availability (mem_service inw) avail time_min time_max (st, lg) = (r2, (st', lg'))"
  shows "(\<exists>cs. snd w' = snd w @ cs \<and>
            (\<forall>c\<in>set cs. c = EventsList ''primary'' (JStr time_min) (JStr time_max) True ''startTime'' \<or>
                        (\<exists>body. c = EventsInsert avail body))) \<and>
         st' ''primary'' = st ''primary''"
proof
  obtain g w1 where g: "get_all_events service ''primary'' (JStr time_min) (JStr time_max) w = (g, w1)"
    by (cases "get_all_events service ''primary'' (JStr time_min) (JStr time_max) w") auto
  note lg1 = get_all_events_fail_log[OF g]
  show "\<exists>cs. snd w' = snd w @ cs \<and>
            (\<forall>c\<in>set cs. c = EventsList ''primary'' (JStr time_min) (JStr time_max) True ''startTime'' \<or>
                        (\<exists>body. c = EventsInsert avail body))"
  proof (cases g)
    case (Inl e)
    with g assms(1) have "w' = w1" by (simp add: sync_availability_def)
    with lg1 show ?thesis by simp
  next
    case (Inr evs)
    with g assms(1) have sw: "sync_sweep service avail evs w1 = (r, w')"
      by (simp add: sync_availability_def)
    from sync_sweep_calls[OF sw] obtain dn where "snd w' = snd w1 @ map (mirror_call avail) dn" by blast
    with lg1 have "snd w' = snd w @
       (EventsList ''primary'' (JStr time_min) (JStr time_max) True ''startTime'' # map (mirror_call avail) dn)"
      by simp
    moreover have "\<forall>c\<in>set (EventsList ''primary'' (JStr time_min) (JStr time_max) True ''startTime'' #
          map (mirror_call avail) dn).
        c = EventsList ''primary'' (JStr time_min) (JStr time_max) True ''startTime'' \<or>
                        (\<exists>body. c = EventsInsert avail body)"
      by (auto simp: mirror_call_def)
    ultimately show ?thesis by blast
  qed
next
  from mem_sync_availability_frame[OF assms(3)] obtain new where "st' = st(avail := st avail @ new)" by blast
  with assms(2) show "st' ''primary'' = st ''primary''" by simp
qed

theorem sync_leaves_source_untouched_witness:
  "sync_availability (mem_service str_window) ''mirror'' demo_now demo_end (demo_store, []) =
     (Inr JNull,
      (fst (snd (sync_availability (mem_service str_window) ''mirror'' demo_now demo_end (demo_store, []))),
       [EventsList ''primary'' (JStr demo_now) (JStr demo_end) True ''startTime'',
        mirror_call ''mirror'' meeting, mirror_call ''mirror'' all_day])) \<and>
   ''mirror'' \<noteq> ''primary'' \<and>
   (\<exists>cs. [EventsList ''primary'' (JStr demo_now) (JStr demo_end) True ''startTime'',
        mirror_call ''mirror'' meeting, mirror_call ''mirror'' all_day] = cs \<and>
      (\<forall>c\<in>set cs. c = EventsList ''primary'' (JStr demo_now) (JStr demo_end) True ''startTime'' \<or>
                  (\<exists>body. c = EventsInsert ''mirror'' body))) \<and>
   fst (snd (sync_availability (mem_service str_window) ''mirror'' demo_now demo_end (demo_store, []))) ''primary'' =
     demo_store ''primary''"
proof -
  let ?out = "sync_availability (mem_service str_window) ''mirror'' demo_now demo_end (demo_store, [])"
  let ?log = "[EventsList ''primary'' (JStr demo_now) (JStr demo_end) True ''startTime'',
        mirror_call ''mirror'' meeting, mirror_call ''mirror'' all_day]"
  have r: "fst ?out = Inr JNull" by code_simp
  have l: "snd (snd ?out) = ?log" by code_simp
  from r l have run: "?out = (Inr JNull, (fst (snd ?out), ?log))"
    by (simp add: prod_eq_iff)
  have ne: "''mirror'' \<noteq> ''primary''" by simp
  from sync_leaves_source_untouched[OF run ne run] have
    "\<exists>cs. ?log = cs \<and>
      (\<forall>c\<in>set cs. c = EventsList ''primary'' (JStr demo_now) (JStr demo_end) True ''startTime'' \<or>
                  (\<exists>body. c = EventsInsert ''mirror'' body))"
    and "fst (snd ?out) ''primary'' = demo_store ''primary''"
    by simp_all
  with run ne show ?thesis by (intro conjI)
qed

end
